theory Spec2Isabelle
  imports Complex_Main "HOL-Library.Word" "HOL-Library.Multiset"
begin

unbundle bit_operations_syntax

section \<open>Data model\<close>

text \<open>
  A buffer is the memory seen through one pointer argument: \<open>buf i\<close> is the element
  \<open>p[i]\<close>. The pointer parameters of every kernel are \<open>__restrict__\<close>, so the
  source buffers and the destination buffer are separate memories; a pointer that walks
  through a buffer is the index of the element it points to. Element values are machine
  words of the element width. Sizes, strides, the number of processing elements and the
  core id are natural numbers: the index arithmetic of the source is exact as long as the
  buffers fit the 32-bit address space. The one unsigned subtraction of the source,
  \<open>stride - N\<close>, has its wrap-around written out in \<open>u32_sub\<close>.
\<close>

type_synonym 'a buf = "nat \<Rightarrow> 'a word"

text \<open>Walking state of a two-source kernel: \<open>(pSrcA, pSrcB, pDst, dst)\<close>.\<close>
type_synonym 'a bst = "nat \<times> nat \<times> nat \<times> 'a buf"

text \<open>Walking state of a copy kernel: \<open>(pSrc, pDst, dst)\<close>.\<close>
type_synonym 'a cst = "nat \<times> nat \<times> 'a buf"

text \<open>Walking state of a copy kernel that handles two rows at once:
  \<open>(pSrc1, pSrc2, pDst1, pDst2, dst)\<close>.\<close>
type_synonym 'a cst2 = "nat \<times> nat \<times> nat \<times> nat \<times> 'a buf"

definition u32_sub :: "nat \<Rightarrow> nat \<Rightarrow> nat" where
  "u32_sub a b = (if b \<le> a then a - b else a + 2 ^ 32 - b)"

definition dst_of :: "'a bst \<Rightarrow> 'a buf" where
  "dst_of = (\<lambda>(pSrcA, pSrcB, pDst, dst). dst)"

definition cdst_of :: "'a cst \<Rightarrow> 'a buf" where
  "cdst_of = (\<lambda>(pSrc, pDst, dst). dst)"

definition cdst2_of :: "'a cst2 \<Rightarrow> 'a buf" where
  "cdst2_of = (\<lambda>(pSrc1, pSrc2, pDst1, pDst2, dst). dst)"

subsection \<open>Scalar arithmetic\<close>

text \<open>
  \<open>a + b\<close> and \<open>a - b\<close> on \<open>int8_t\<close>, \<open>int16_t\<close> and \<open>int32_t\<close> operands:
  the operands are read as signed values, combined, and the result is truncated to the
  element width by the store.
\<close>

definition c_add :: "'a::len word \<Rightarrow> 'a word \<Rightarrow> 'a word" where
  "c_add a b = word_of_int (sint a + sint b)"

definition c_sub :: "'a::len word \<Rightarrow> 'a word \<Rightarrow> 'a word" where
  "c_sub a b = word_of_int (sint a - sint b)"

subsection \<open>Word-sized accesses to 16-bit and 8-bit buffers\<close>

text \<open>
  \<open>*((v2s *)p)\<close> and \<open>*((int32_t *)p)\<close> on an \<open>int16_t\<close> pointer read or write the
  two elements \<open>p[0]\<close>, \<open>p[1]\<close> as one 32-bit word (little endian: \<open>p[0]\<close> is the low
  half); on an \<open>int8_t\<close> pointer they read or write \<open>p[0] .. p[3]\<close>.
\<close>

definition ld_w16 :: "16 buf \<Rightarrow> nat \<Rightarrow> 32 word" where
  "ld_w16 mem p = ucast (mem p) OR push_bit 16 (ucast (mem (p + 1)))"

definition st_w16 :: "16 buf \<Rightarrow> nat \<Rightarrow> 32 word \<Rightarrow> 16 buf" where
  "st_w16 mem p v = mem(p := ucast v, p + 1 := ucast (drop_bit 16 v))"

definition ld_w8 :: "8 buf \<Rightarrow> nat \<Rightarrow> 32 word" where
  "ld_w8 mem p = ucast (mem p) OR push_bit 8 (ucast (mem (p + 1)))
      OR push_bit 16 (ucast (mem (p + 2))) OR push_bit 24 (ucast (mem (p + 3)))"

definition st_w8 :: "8 buf \<Rightarrow> nat \<Rightarrow> 32 word \<Rightarrow> 8 buf" where
  "st_w8 mem p v = mem(p := ucast v, p + 1 := ucast (drop_bit 8 v),
      p + 2 := ucast (drop_bit 16 v), p + 3 := ucast (drop_bit 24 v))"

subsection \<open>Packed arithmetic\<close>

text \<open>
  Modelled from the spec: the macros \<open>__ADD2\<close>, \<open>__SUB2\<close> and \<open>__ADD4\<close> come from
  \<open>plp_math.h\<close>, which is not among the sources. The spec describes them as a
  "saturating-free, wraparound packed add/subtract primitive that applies the operator
  independently to each lane": 2 lanes of 16 bits, or 4 lanes of 8 bits, in one word.
\<close>

definition ADD2 :: "32 word \<Rightarrow> 32 word \<Rightarrow> 32 word" where
  "ADD2 x y = ucast ((ucast x :: 16 word) + ucast y)
     OR push_bit 16 (ucast ((ucast (drop_bit 16 x) :: 16 word) + ucast (drop_bit 16 y)))"

definition SUB2 :: "32 word \<Rightarrow> 32 word \<Rightarrow> 32 word" where
  "SUB2 x y = ucast ((ucast x :: 16 word) - ucast y)
     OR push_bit 16 (ucast ((ucast (drop_bit 16 x) :: 16 word) - ucast (drop_bit 16 y)))"

definition ADD4 :: "32 word \<Rightarrow> 32 word \<Rightarrow> 32 word" where
  "ADD4 x y = ucast ((ucast x :: 8 word) + ucast y)
     OR push_bit 8 (ucast ((ucast (drop_bit 8 x) :: 8 word) + ucast (drop_bit 8 y)))
     OR push_bit 16 (ucast ((ucast (drop_bit 16 x) :: 8 word) + ucast (drop_bit 16 y)))
     OR push_bit 24 (ucast ((ucast (drop_bit 24 x) :: 8 word) + ucast (drop_bit 24 y)))"

section \<open>Statements of the two-source kernels\<close>

text \<open>\<open>*pDst++ = *pSrcA++ OP *pSrcB++;\<close> (also written with two locals \<open>a\<close>, \<open>b\<close>).\<close>

definition elem_step :: "('a word \<Rightarrow> 'a word \<Rightarrow> 'a word) \<Rightarrow> 'a buf \<Rightarrow> 'a buf \<Rightarrow> 'a bst \<Rightarrow> 'a bst" where
  "elem_step opr srcA srcB = (\<lambda>(pSrcA, pSrcB, pDst, dst).
     let a = srcA pSrcA; b = srcB pSrcB
     in (pSrcA + 1, pSrcB + 1, pDst + 1, dst(pDst := opr a b)))"

text \<open>The body unrolled by two scalar elements:
  \<open>a1 = *pSrcA++; a2 = *pSrcA++; b1 = *pSrcB++; b2 = *pSrcB++;
  *pDst++ = a1 OP b1; *pDst++ = a2 OP b2;\<close>\<close>

definition elem_step2 :: "('a word \<Rightarrow> 'a word \<Rightarrow> 'a word) \<Rightarrow> 'a buf \<Rightarrow> 'a buf \<Rightarrow> 'a bst \<Rightarrow> 'a bst" where
  "elem_step2 opr srcA srcB = (\<lambda>(pSrcA, pSrcB, pDst, dst).
     let a1 = srcA pSrcA; a2 = srcA (pSrcA + 1);
         b1 = srcB pSrcB; b2 = srcB (pSrcB + 1)
     in (pSrcA + 2, pSrcB + 2, pDst + 2, dst(pDst := opr a1 b1, pDst + 1 := opr a2 b2)))"

text \<open>One packed operation on two 16-bit lanes:
  \<open>a = *((v2s * )pSrcA); b = *((v2s * )pSrcB); *((v2s * )pDst) = OP2(a, b);
  pSrcA += 2; pSrcB += 2; pDst += 2;\<close>\<close>

definition v2s_step :: "(32 word \<Rightarrow> 32 word \<Rightarrow> 32 word) \<Rightarrow> 16 buf \<Rightarrow> 16 buf \<Rightarrow> 16 bst \<Rightarrow> 16 bst" where
  "v2s_step vop srcA srcB = (\<lambda>(pSrcA, pSrcB, pDst, dst).
     let a = ld_w16 srcA pSrcA; b = ld_w16 srcB pSrcB
     in (pSrcA + 2, pSrcB + 2, pDst + 2, st_w16 dst pDst (vop a b)))"

text \<open>Two packed operations per iteration:
  \<open>a1 = *((v2s * )pSrcA); b1 = *((v2s * )pSrcB); a2 = *((v2s * )(pSrcA + 2));
  b2 = *((v2s * )(pSrcB + 2)); *((v2s * )pDst) = OP2(a1, b1);
  *((v2s * )(pDst + 2)) = OP2(a2, b2); pSrcA += 4; pSrcB += 4; pDst += 4;\<close>\<close>

definition v2s_step2 :: "(32 word \<Rightarrow> 32 word \<Rightarrow> 32 word) \<Rightarrow> 16 buf \<Rightarrow> 16 buf \<Rightarrow> 16 bst \<Rightarrow> 16 bst" where
  "v2s_step2 vop srcA srcB = (\<lambda>(pSrcA, pSrcB, pDst, dst).
     let a1 = ld_w16 srcA pSrcA; b1 = ld_w16 srcB pSrcB;
         a2 = ld_w16 srcA (pSrcA + 2); b2 = ld_w16 srcB (pSrcB + 2);
         dst1 = st_w16 dst pDst (vop a1 b1);
         dst2 = st_w16 dst1 (pDst + 2) (vop a2 b2)
     in (pSrcA + 4, pSrcB + 4, pDst + 4, dst2))"

text \<open>One packed operation on four 8-bit lanes:
  \<open>a = *((v4s * )pSrcA); b = *((v4s * )pSrcB); pSrcA += 4; pSrcB += 4;
  *((v4s * )pDst) = OP4(a, b); pDst += 4;\<close>\<close>

definition v4s_step :: "(32 word \<Rightarrow> 32 word \<Rightarrow> 32 word) \<Rightarrow> 8 buf \<Rightarrow> 8 buf \<Rightarrow> 8 bst \<Rightarrow> 8 bst" where
  "v4s_step vop srcA srcB = (\<lambda>(pSrcA, pSrcB, pDst, dst).
     let a = ld_w8 srcA pSrcA; b = ld_w8 srcB pSrcB
     in (pSrcA + 4, pSrcB + 4, pDst + 4, st_w8 dst pDst (vop a b)))"

text \<open>Two packed operations on four 8-bit lanes each, pointers advanced in between.\<close>

definition v4s_step2 :: "(32 word \<Rightarrow> 32 word \<Rightarrow> 32 word) \<Rightarrow> 8 buf \<Rightarrow> 8 buf \<Rightarrow> 8 bst \<Rightarrow> 8 bst" where
  "v4s_step2 vop srcA srcB = (\<lambda>(pSrcA, pSrcB, pDst, dst).
     let a1 = ld_w8 srcA pSrcA; b1 = ld_w8 srcB pSrcB;
         a2 = ld_w8 srcA (pSrcA + 4); b2 = ld_w8 srcB (pSrcB + 4);
         dst1 = st_w8 dst pDst (vop a1 b1);
         dst2 = st_w8 dst1 (pDst + 4) (vop a2 b2)
     in (pSrcA + 8, pSrcB + 8, pDst + 8, dst2))"

text \<open>\<open>pSrcA += step_a; pSrcB += step_b; pDst += step_y;\<close>\<close>

definition next_line :: "nat \<Rightarrow> nat \<Rightarrow> nat \<Rightarrow> 'a bst \<Rightarrow> 'a bst" where
  "next_line step_a step_b step_y = (\<lambda>(pSrcA, pSrcB, pDst, dst).
     (pSrcA + step_a, pSrcB + step_b, pDst + step_y, dst))"

section \<open>Statements of the copy kernels\<close>

text \<open>\<open>*pDst++ = *pSrc++;\<close>\<close>

definition cp_elem :: "'a buf \<Rightarrow> 'a cst \<Rightarrow> 'a cst" where
  "cp_elem src = (\<lambda>(pSrc, pDst, dst). (pSrc + 1, pDst + 1, dst(pDst := src pSrc)))"

text \<open>\<open>*pDst = *pSrc;\<close>\<close>

definition cp_last :: "'a buf \<Rightarrow> 'a cst \<Rightarrow> 'a cst" where
  "cp_last src = (\<lambda>(pSrc, pDst, dst). (pSrc, pDst, dst(pDst := src pSrc)))"

text \<open>\<open>*((int32_t * )pDst) = *((int32_t * )pSrc); pDst += 2; pSrc += 2;\<close> on 16-bit buffers.\<close>

definition cp_w16 :: "16 buf \<Rightarrow> 16 cst \<Rightarrow> 16 cst" where
  "cp_w16 src = (\<lambda>(pSrc, pDst, dst). (pSrc + 2, pDst + 2, st_w16 dst pDst (ld_w16 src pSrc)))"

text \<open>\<open>*((int32_t * )pDst) = *((int32_t * )pSrc); pDst += 4; pSrc += 4;\<close> on 8-bit buffers.\<close>

definition cp_w8 :: "8 buf \<Rightarrow> 8 cst \<Rightarrow> 8 cst" where
  "cp_w8 src = (\<lambda>(pSrc, pDst, dst). (pSrc + 4, pDst + 4, st_w8 dst pDst (ld_w8 src pSrc)))"

text \<open>\<open>pSrc += src_offset; pDst += dst_offset;\<close>\<close>

definition cp_next :: "nat \<Rightarrow> nat \<Rightarrow> 'a cst \<Rightarrow> 'a cst" where
  "cp_next src_offset dst_offset = (\<lambda>(pSrc, pDst, dst). (pSrc + src_offset, pDst + dst_offset, dst))"

text \<open>The two-row forms: the same statement on row 1, then on row 2.\<close>

definition cp2_elem :: "'a buf \<Rightarrow> 'a cst2 \<Rightarrow> 'a cst2" where
  "cp2_elem src = (\<lambda>(pSrc1, pSrc2, pDst1, pDst2, dst).
     let dst1 = dst(pDst1 := src pSrc1);
         dst2 = dst1(pDst2 := src pSrc2)
     in (pSrc1 + 1, pSrc2 + 1, pDst1 + 1, pDst2 + 1, dst2))"

definition cp2_last :: "'a buf \<Rightarrow> 'a cst2 \<Rightarrow> 'a cst2" where
  "cp2_last src = (\<lambda>(pSrc1, pSrc2, pDst1, pDst2, dst).
     let dst1 = dst(pDst1 := src pSrc1);
         dst2 = dst1(pDst2 := src pSrc2)
     in (pSrc1, pSrc2, pDst1, pDst2, dst2))"

definition cp2_w16 :: "16 buf \<Rightarrow> 16 cst2 \<Rightarrow> 16 cst2" where
  "cp2_w16 src = (\<lambda>(pSrc1, pSrc2, pDst1, pDst2, dst).
     let dst1 = st_w16 dst pDst1 (ld_w16 src pSrc1);
         dst2 = st_w16 dst1 pDst2 (ld_w16 src pSrc2)
     in (pSrc1 + 2, pSrc2 + 2, pDst1 + 2, pDst2 + 2, dst2))"

definition cp2_w8 :: "8 buf \<Rightarrow> 8 cst2 \<Rightarrow> 8 cst2" where
  "cp2_w8 src = (\<lambda>(pSrc1, pSrc2, pDst1, pDst2, dst).
     let dst1 = st_w8 dst pDst1 (ld_w8 src pSrc1);
         dst2 = st_w8 dst1 pDst2 (ld_w8 src pSrc2)
     in (pSrc1 + 4, pSrc2 + 4, pDst1 + 4, pDst2 + 4, dst2))"

definition cp2_next :: "nat \<Rightarrow> nat \<Rightarrow> 'a cst2 \<Rightarrow> 'a cst2" where
  "cp2_next src_offset dst_offset = (\<lambda>(pSrc1, pSrc2, pDst1, pDst2, dst).
     (pSrc1 + src_offset, pSrc2 + src_offset, pDst1 + dst_offset, pDst2 + dst_offset, dst))"

text \<open>The first row of a two-row state, for the code that goes on with \<open>pSrc1\<close> and
  \<open>pDst1\<close> alone.\<close>

definition row1_of :: "'a cst2 \<Rightarrow> 'a cst" where
  "row1_of = (\<lambda>(pSrc1, pSrc2, pDst1, pDst2, dst). (pSrc1, pDst1, dst))"

section \<open>Iteration\<close>

text \<open>
  \<open>for (n = 0; n < k; n++) body\<close> with a body that does not read \<open>n\<close> is
  \<open>body ^^ k\<close>; with a body that reads \<open>n\<close> it is \<open>fold body [0..<k]\<close>.

  The row loop of the parallel kernels, \<open>for (m = core_id; m < M; m += nPE) body\<close>,
  does not return when \<open>nPE = 0\<close> and \<open>core_id < M\<close>; its result is optional, and
  \<open>None\<close> is the loop that never ends.
\<close>

partial_function (option) for_rows :: "nat \<Rightarrow> nat \<Rightarrow> (nat \<Rightarrow> 's \<Rightarrow> 's) \<Rightarrow> nat \<Rightarrow> 's \<Rightarrow> 's option" where
  "for_rows M nPE body m s =
     (if m < M then for_rows M nPE body (m + nPE) (body m s) else Some s)"

text \<open>The values the loop counter \<open>m\<close> takes in the parallel row loop, in order:
  the same loop with a body that only records \<open>m\<close>.\<close>

definition rows_visited :: "nat \<Rightarrow> nat \<Rightarrow> nat \<Rightarrow> nat list option" where
  "rows_visited M nPE core_id = for_rows M nPE (\<lambda>m ms. ms @ [m]) core_id []"

section \<open>Strided addition\<close>

subsection \<open>\<open>plp_mat_add_stride_i32s_xpulpv2\<close>\<close>

text \<open>With \<open>PLP_MATH_LOOPUNROLL\<close>.\<close>

definition plp_mat_add_stride_i32s_xpulpv2_unroll ::
  "32 buf \<Rightarrow> 32 buf \<Rightarrow> nat \<Rightarrow> nat \<Rightarrow> nat \<Rightarrow> nat \<Rightarrow> nat \<Rightarrow> 32 buf \<Rightarrow> 32 buf" where
  "plp_mat_add_stride_i32s_xpulpv2_unroll srcA srcB M N strideA strideB strideY dst =
    (let n_iter = drop_bit 1 N;
         n_rem = N AND 1;
         step_a = u32_sub strideA N;
         step_b = u32_sub strideB N;
         step_y = u32_sub strideY N
     in if n_rem \<noteq> 0 then
          dst_of (((\<lambda>s.
            let s1 = (elem_step2 c_add srcA srcB ^^ n_iter) s;
                s2 = elem_step c_add srcA srcB s1
            in next_line step_a step_b step_y s2) ^^ M) (0, 0, 0, dst))
        else
          dst_of (((\<lambda>s.
            let s1 = (elem_step2 c_add srcA srcB ^^ n_iter) s
            in next_line step_a step_b step_y s1) ^^ M) (0, 0, 0, dst)))"

text \<open>Without \<open>PLP_MATH_LOOPUNROLL\<close>.\<close>

definition plp_mat_add_stride_i32s_xpulpv2_plain ::
  "32 buf \<Rightarrow> 32 buf \<Rightarrow> nat \<Rightarrow> nat \<Rightarrow> nat \<Rightarrow> nat \<Rightarrow> nat \<Rightarrow> 32 buf \<Rightarrow> 32 buf" where
  "plp_mat_add_stride_i32s_xpulpv2_plain srcA srcB M N strideA strideB strideY dst =
    (let step_a = u32_sub strideA N;
         step_b = u32_sub strideB N;
         step_y = u32_sub strideY N
     in dst_of (((\<lambda>s.
          let s1 = (elem_step c_add srcA srcB ^^ N) s
          in next_line step_a step_b step_y s1) ^^ M) (0, 0, 0, dst)))"

subsection \<open>The parallel kernels' arguments and result\<close>

text \<open>
  The instance structs are declared in \<open>plp_math.h\<close>; their fields are the ones the
  kernels read. A pointer field holds the buffer it points to; \<open>pDst\<close> holds the
  destination buffer as it is when the kernel is called. Field names carry the prefix
  \<open>add_\<close>, \<open>cpy_\<close> or \<open>mm_\<close> of their struct; the type parameter is the element
  type (\<open>16 word\<close> for \<open>int16_t\<close>).
\<close>

record 'e plp_mat_add_stride_instance =
  add_pSrcA :: "nat \<Rightarrow> 'e"
  add_pSrcB :: "nat \<Rightarrow> 'e"
  add_M :: nat
  add_N :: nat
  add_strideA :: nat
  add_strideB :: nat
  add_strideY :: nat
  add_nPE :: nat
  add_pDst :: "nat \<Rightarrow> 'e"

record 'e plp_mat_copy_stride_instance =
  cpy_pSrc :: "nat \<Rightarrow> 'e"
  cpy_M :: nat
  cpy_N :: nat
  cpy_strideSrc :: nat
  cpy_strideDst :: nat
  cpy_nPE :: nat
  cpy_pDst :: "nat \<Rightarrow> 'e"

record plp_mat_mult_instance_i16 =
  mm_pSrcA :: "16 buf"
  mm_pSrcB :: "16 buf"
  mm_M :: nat
  mm_N :: nat
  mm_O :: nat
  mm_nPE :: nat
  mm_pDstC :: "32 buf"

text \<open>
  What one processing element has done when its call returns: the destination buffer,
  and one entry for every barrier it went through.

  Modelled from the spec: \<open>rt_team_barrier\<close> belongs to the runtime, which is not among
  the sources; the spec calls it "a barrier/rendezvous primitive blocking the calling
  processing element until all \<open>nPE\<close> participants arrive". The model of one call
  records, at each rendezvous, the destination as this processing element has written it
  by then.
\<close>

record 'e pe_state =
  pe_dst :: "nat \<Rightarrow> 'e"
  pe_barriers :: "(nat \<Rightarrow> 'e) list"

definition rt_team_barrier :: "'e pe_state \<Rightarrow> 'e pe_state" where
  "rt_team_barrier s = s\<lparr>pe_barriers := pe_barriers s @ [pe_dst s]\<rparr>"

text \<open>A call that returns with destination \<open>dst\<close> and has met no barrier.\<close>

definition pe_return :: "(nat \<Rightarrow> 'e) \<Rightarrow> 'e pe_state" where
  "pe_return dst = \<lparr>pe_dst = dst, pe_barriers = []\<rparr>"

subsection \<open>\<open>plp_mat_add_stride_i16p_xpulpv2\<close>\<close>

text \<open>\<open>core_id\<close> is the value of \<open>rt_core_id()\<close>.\<close>

definition plp_mat_add_stride_i16p_xpulpv2 ::
  "16 word plp_mat_add_stride_instance \<Rightarrow> nat \<Rightarrow> 16 word pe_state option" where
  "plp_mat_add_stride_i16p_xpulpv2 args core_id =
    (let srcA = add_pSrcA args; srcB = add_pSrcB args;
         M = add_M args; N = add_N args;
         strideA = add_strideA args; strideB = add_strideB args; strideY = add_strideY args;
         nPE = add_nPE args; dst = add_pDst args;
         n_iter = drop_bit 2 N;
         n_blk = N AND 2;
         n_rem = N AND 1;
         pSrcA = strideA * core_id;
         pSrcB = strideB * core_id;
         pDst = strideY * core_id;
         step_a = u32_sub (strideA * nPE) N;
         step_b = u32_sub (strideB * nPE) N;
         step_y = u32_sub (strideY * nPE) N
     in map_option (pe_return \<circ> dst_of)
       (if n_rem \<noteq> 0 then
          if n_blk \<noteq> 0 then
            for_rows M nPE (\<lambda>m s.
              let s1 = (v2s_step2 ADD2 srcA srcB ^^ n_iter) s;
                  s2 = v2s_step ADD2 srcA srcB s1;
                  s3 = elem_step c_add srcA srcB s2
              in next_line step_a step_b step_y s3) core_id (pSrcA, pSrcB, pDst, dst)
          else
            for_rows M nPE (\<lambda>m s.
              let s1 = (v2s_step2 ADD2 srcA srcB ^^ n_iter) s;
                  s2 = elem_step c_add srcA srcB s1
              in next_line step_a step_b step_y s2) core_id (pSrcA, pSrcB, pDst, dst)
        else
          if n_blk \<noteq> 0 then
            for_rows M nPE (\<lambda>m s.
              let s1 = (v2s_step2 ADD2 srcA srcB ^^ n_iter) s;
                  s2 = v2s_step ADD2 srcA srcB s1
              in next_line step_a step_b step_y s2) core_id (pSrcA, pSrcB, pDst, dst)
          else
            for_rows M nPE (\<lambda>m s.
              let s1 = (v2s_step2 ADD2 srcA srcB ^^ n_iter) s
              in next_line step_a step_b step_y s1) core_id (pSrcA, pSrcB, pDst, dst)))"

subsection \<open>\<open>plp_mat_add_stride_i8p_xpulpv2\<close>\<close>

definition plp_mat_add_stride_i8p_xpulpv2 ::
  "8 word plp_mat_add_stride_instance \<Rightarrow> nat \<Rightarrow> 8 word pe_state option" where
  "plp_mat_add_stride_i8p_xpulpv2 args core_id =
    (let srcA = add_pSrcA args; srcB = add_pSrcB args;
         M = add_M args; N = add_N args;
         strideA = add_strideA args; strideB = add_strideB args; strideY = add_strideY args;
         nPE = add_nPE args; dst = add_pDst args;
         n_iter = drop_bit 3 N;
         n_rem = N AND 3;
         n_blk = N AND 4;
         pSrcA = strideA * core_id;
         pSrcB = strideB * core_id;
         pDst = strideY * core_id;
         step_a = u32_sub (strideA * nPE) N;
         step_b = u32_sub (strideB * nPE) N;
         step_y = u32_sub (strideY * nPE) N
     in map_option (pe_return \<circ> dst_of)
       (if n_rem \<noteq> 0 then
          if n_blk \<noteq> 0 then
            for_rows M nPE (\<lambda>m s.
              let s1 = (v4s_step2 ADD4 srcA srcB ^^ n_iter) s;
                  s2 = v4s_step ADD4 srcA srcB s1;
                  s3 = (elem_step c_add srcA srcB ^^ n_rem) s2
              in next_line step_a step_b step_y s3) core_id (pSrcA, pSrcB, pDst, dst)
          else
            for_rows M nPE (\<lambda>m s.
              let s1 = (v4s_step2 ADD4 srcA srcB ^^ n_iter) s;
                  s2 = (elem_step c_add srcA srcB ^^ n_rem) s1
              in next_line step_a step_b step_y s2) core_id (pSrcA, pSrcB, pDst, dst)
        else
          if n_blk \<noteq> 0 then
            for_rows M nPE (\<lambda>m s.
              let s1 = (v4s_step2 ADD4 srcA srcB ^^ n_iter) s;
                  s2 = v4s_step ADD4 srcA srcB s1
              in next_line step_a step_b step_y s2) core_id (pSrcA, pSrcB, pDst, dst)
          else
            for_rows M nPE (\<lambda>m s.
              let s1 = (v4s_step2 ADD4 srcA srcB ^^ n_iter) s
              in next_line step_a step_b step_y s1) core_id (pSrcA, pSrcB, pDst, dst)))"

section \<open>Strided subtraction\<close>

subsection \<open>\<open>plp_mat_sub_stride_i16s_xpulpv2\<close>\<close>

text \<open>With \<open>PLP_MATH_LOOPUNROLL\<close>.\<close>

definition plp_mat_sub_stride_i16s_xpulpv2_unroll ::
  "16 buf \<Rightarrow> 16 buf \<Rightarrow> nat \<Rightarrow> nat \<Rightarrow> nat \<Rightarrow> nat \<Rightarrow> nat \<Rightarrow> 16 buf \<Rightarrow> 16 buf" where
  "plp_mat_sub_stride_i16s_xpulpv2_unroll srcA srcB M N strideA strideB strideY dst =
    (let n_iter = drop_bit 2 N;
         n_rem = N AND 1;
         n_blk = N AND 2;
         step_a = u32_sub strideA N;
         step_b = u32_sub strideB N;
         step_y = u32_sub strideY N
     in if n_rem \<noteq> 0 then
          if n_blk \<noteq> 0 then
            dst_of (((\<lambda>s.
              let s1 = (v2s_step2 SUB2 srcA srcB ^^ n_iter) s;
                  s2 = v2s_step SUB2 srcA srcB s1;
                  s3 = elem_step c_sub srcA srcB s2
              in next_line step_a step_b step_y s3) ^^ M) (0, 0, 0, dst))
          else
            dst_of (((\<lambda>s.
              let s1 = (v2s_step2 SUB2 srcA srcB ^^ n_iter) s;
                  s2 = elem_step c_sub srcA srcB s1
              in next_line step_a step_b step_y s2) ^^ M) (0, 0, 0, dst))
        else
          if n_blk \<noteq> 0 then
            dst_of (((\<lambda>s.
              let s1 = (v2s_step2 SUB2 srcA srcB ^^ n_iter) s;
                  s2 = v2s_step SUB2 srcA srcB s1
              in next_line step_a step_b step_y s2) ^^ M) (0, 0, 0, dst))
          else
            dst_of (((\<lambda>s.
              let s1 = (v2s_step2 SUB2 srcA srcB ^^ n_iter) s
              in next_line step_a step_b step_y s1) ^^ M) (0, 0, 0, dst)))"

text \<open>Without \<open>PLP_MATH_LOOPUNROLL\<close>.\<close>

definition plp_mat_sub_stride_i16s_xpulpv2_plain ::
  "16 buf \<Rightarrow> 16 buf \<Rightarrow> nat \<Rightarrow> nat \<Rightarrow> nat \<Rightarrow> nat \<Rightarrow> nat \<Rightarrow> 16 buf \<Rightarrow> 16 buf" where
  "plp_mat_sub_stride_i16s_xpulpv2_plain srcA srcB M N strideA strideB strideY dst =
    (let n_iter = drop_bit 1 N;
         n_rem = N AND 1;
         step_a = u32_sub strideA N;
         step_b = u32_sub strideB N;
         step_y = u32_sub strideY N
     in if n_rem \<noteq> 0 then
          dst_of (((\<lambda>s.
            let s1 = (v2s_step SUB2 srcA srcB ^^ n_iter) s;
                s2 = elem_step c_sub srcA srcB s1
            in next_line step_a step_b step_y s2) ^^ M) (0, 0, 0, dst))
        else
          dst_of (((\<lambda>s.
            let s1 = (v2s_step SUB2 srcA srcB ^^ n_iter) s
            in next_line step_a step_b step_y s1) ^^ M) (0, 0, 0, dst)))"

subsection \<open>\<open>plp_mat_sub_stride_i16s_rv32im\<close>\<close>

text \<open>With \<open>PLP_MATH_LOOPUNROLL\<close>.\<close>

definition plp_mat_sub_stride_i16s_rv32im_unroll ::
  "16 buf \<Rightarrow> 16 buf \<Rightarrow> nat \<Rightarrow> nat \<Rightarrow> nat \<Rightarrow> nat \<Rightarrow> nat \<Rightarrow> 16 buf \<Rightarrow> 16 buf" where
  "plp_mat_sub_stride_i16s_rv32im_unroll srcA srcB M N strideA strideB strideY dst =
    (let n_iter = drop_bit 1 N;
         n_rem = N AND 1;
         step_a = u32_sub strideA N;
         step_b = u32_sub strideB N;
         step_y = u32_sub strideY N
     in if n_rem \<noteq> 0 then
          dst_of (((\<lambda>s.
            let s1 = (elem_step2 c_sub srcA srcB ^^ n_iter) s;
                s2 = elem_step c_sub srcA srcB s1
            in next_line step_a step_b step_y s2) ^^ M) (0, 0, 0, dst))
        else
          dst_of (((\<lambda>s.
            let s1 = (elem_step2 c_sub srcA srcB ^^ n_iter) s
            in next_line step_a step_b step_y s1) ^^ M) (0, 0, 0, dst)))"

text \<open>Without \<open>PLP_MATH_LOOPUNROLL\<close>.\<close>

definition plp_mat_sub_stride_i16s_rv32im_plain ::
  "16 buf \<Rightarrow> 16 buf \<Rightarrow> nat \<Rightarrow> nat \<Rightarrow> nat \<Rightarrow> nat \<Rightarrow> nat \<Rightarrow> 16 buf \<Rightarrow> 16 buf" where
  "plp_mat_sub_stride_i16s_rv32im_plain srcA srcB M N strideA strideB strideY dst =
    (let step_a = u32_sub strideA N;
         step_b = u32_sub strideB N;
         step_y = u32_sub strideY N
     in dst_of (((\<lambda>s.
          let s1 = (elem_step c_sub srcA srcB ^^ N) s
          in next_line step_a step_b step_y s1) ^^ M) (0, 0, 0, dst)))"

section \<open>Strided copy\<close>

subsection \<open>\<open>plp_mat_copy_stride_i32s_rv32im\<close>\<close>

text \<open>With \<open>PLP_MATH_LOOPUNROLL\<close>.\<close>

definition plp_mat_copy_stride_i32s_rv32im_unroll ::
  "32 buf \<Rightarrow> nat \<Rightarrow> nat \<Rightarrow> nat \<Rightarrow> nat \<Rightarrow> 32 buf \<Rightarrow> 32 buf" where
  "plp_mat_copy_stride_i32s_rv32im_unroll src M N strideSrc strideDst dst =
    (let n_iter = drop_bit 1 N;
         n_rem = N AND 1
     in cdst_of (((\<lambda>s.
          let s1 = ((\<lambda>s. cp_elem src (cp_elem src s)) ^^ n_iter) s;
              s2 = (if n_rem \<noteq> 0 then cp_elem src s1 else s1)
          in cp_next (u32_sub strideSrc N) (u32_sub strideDst N) s2) ^^ M) (0, 0, dst)))"

text \<open>Without \<open>PLP_MATH_LOOPUNROLL\<close>: the indexed double loop.\<close>

definition plp_mat_copy_stride_i32s_rv32im_plain ::
  "32 buf \<Rightarrow> nat \<Rightarrow> nat \<Rightarrow> nat \<Rightarrow> nat \<Rightarrow> 32 buf \<Rightarrow> 32 buf" where
  "plp_mat_copy_stride_i32s_rv32im_plain src M N strideSrc strideDst dst =
     fold (\<lambda>m dst.
       fold (\<lambda>n dst. dst(m * strideDst + n := src (m * strideSrc + n))) [0..<N] dst)
       [0..<M] dst"

subsection \<open>\<open>plp_mat_copy_stride_i16s_rv32im\<close>\<close>

text \<open>With \<open>PLP_MATH_LOOPUNROLL\<close>: two rows per iteration of the row loop, through
  \<open>pSrc1\<close>, \<open>pDst1\<close> and \<open>pSrc2 = pSrc + strideSrc\<close>, \<open>pDst2 = pDst + strideDst\<close>.\<close>

definition plp_mat_copy_stride_i16s_rv32im_unroll ::
  "16 buf \<Rightarrow> nat \<Rightarrow> nat \<Rightarrow> nat \<Rightarrow> nat \<Rightarrow> 16 buf \<Rightarrow> 16 buf" where
  "plp_mat_copy_stride_i16s_rv32im_unroll src M N strideSrc strideDst dst =
    (let pSrc1 = 0; pSrc2 = 0 + strideSrc;
         pDst1 = 0; pDst2 = 0 + strideDst;
         n_iter = drop_bit 1 N;
         n_rem = N AND 1;
         m_iter = drop_bit 1 M;
         m_rem = M AND 1
     in if n_rem \<noteq> 0 then
          (let src_offset = u32_sub (2 * strideSrc) N + 1;
               dst_offset = u32_sub (2 * strideDst) N + 1;
               t = ((\<lambda>s.
                 let s1 = (cp2_w16 src ^^ n_iter) s;
                     s2 = cp2_last src s1
                 in cp2_next src_offset dst_offset s2) ^^ m_iter) (pSrc1, pSrc2, pDst1, pDst2, dst)
           in if m_rem \<noteq> 0 then
                (let t1 = (cp2_w16 src ^^ n_iter) t;
                     t2 = cp2_last src t1
                 in cdst2_of t2)
              else cdst2_of t)
        else
          (let src_offset = u32_sub (2 * strideSrc) N;
               dst_offset = u32_sub (2 * strideDst) N;
               t = ((\<lambda>s.
                 let s1 = (cp2_w16 src ^^ n_iter) s
                 in cp2_next src_offset dst_offset s1) ^^ m_iter) (pSrc1, pSrc2, pDst1, pDst2, dst)
           in if m_rem \<noteq> 0 then
                (let t1 = (cp2_w16 src ^^ n_iter) t
                 in cdst2_of t1)
              else cdst2_of t))"

text \<open>Without \<open>PLP_MATH_LOOPUNROLL\<close>.\<close>

definition plp_mat_copy_stride_i16s_rv32im_plain ::
  "16 buf \<Rightarrow> nat \<Rightarrow> nat \<Rightarrow> nat \<Rightarrow> nat \<Rightarrow> 16 buf \<Rightarrow> 16 buf" where
  "plp_mat_copy_stride_i16s_rv32im_plain src M N strideSrc strideDst dst =
    (let n_iter = drop_bit 1 N;
         n_rem = N AND 1
     in if n_rem \<noteq> 0 then
          (let src_offset = u32_sub strideSrc N + 1;
               dst_offset = u32_sub strideDst N + 1
           in cdst_of (((\<lambda>s.
                let s1 = (cp_w16 src ^^ n_iter) s;
                    s2 = cp_last src s1
                in cp_next src_offset dst_offset s2) ^^ M) (0, 0, dst)))
        else
          (let src_offset = u32_sub strideSrc N;
               dst_offset = u32_sub strideDst N
           in cdst_of (((\<lambda>s.
                let s1 = (cp_w16 src ^^ n_iter) s
                in cp_next src_offset dst_offset s1) ^^ M) (0, 0, dst))))"

subsection \<open>\<open>plp_mat_copy_stride_i8s_rv32im\<close>\<close>

text \<open>With \<open>PLP_MATH_LOOPUNROLL\<close>: two rows per iteration of the row loop; the last row
  of an odd \<open>M\<close> goes through \<open>pSrc1\<close> and \<open>pDst1\<close> alone.\<close>

definition plp_mat_copy_stride_i8s_rv32im_unroll ::
  "8 buf \<Rightarrow> nat \<Rightarrow> nat \<Rightarrow> nat \<Rightarrow> nat \<Rightarrow> 8 buf \<Rightarrow> 8 buf" where
  "plp_mat_copy_stride_i8s_rv32im_unroll src M N strideSrc strideDst dst =
    (let pSrc1 = 0; pSrc2 = 0 + strideSrc;
         pDst1 = 0; pDst2 = 0 + strideDst;
         offset_src = u32_sub (2 * strideSrc) N;
         offset_dst = u32_sub (2 * strideDst) N;
         m_iter = drop_bit 1 M;
         m_rem = M AND 1;
         n_iter = drop_bit 2 N;
         n_rem = N AND 3
     in if n_rem \<noteq> 0 then
          (let t = ((\<lambda>s.
                 let s1 = (cp2_w8 src ^^ n_iter) s;
                     s2 = (cp2_elem src ^^ n_rem) s1
                 in cp2_next offset_src offset_dst s2) ^^ m_iter) (pSrc1, pSrc2, pDst1, pDst2, dst)
           in if m_rem \<noteq> 0 then
                (let t1 = (cp_w8 src ^^ n_iter) (row1_of t);
                     t2 = (cp_elem src ^^ n_rem) t1
                 in cdst_of t2)
              else cdst2_of t)
        else
          (let t = ((\<lambda>s.
                 let s1 = (cp2_w8 src ^^ n_iter) s
                 in cp2_next offset_src offset_dst s1) ^^ m_iter) (pSrc1, pSrc2, pDst1, pDst2, dst)
           in if m_rem \<noteq> 0 then
                (let t1 = (cp_w8 src ^^ n_iter) (row1_of t)
                 in cdst_of t1)
              else cdst2_of t))"

text \<open>Without \<open>PLP_MATH_LOOPUNROLL\<close>.\<close>

definition plp_mat_copy_stride_i8s_rv32im_plain ::
  "8 buf \<Rightarrow> nat \<Rightarrow> nat \<Rightarrow> nat \<Rightarrow> nat \<Rightarrow> 8 buf \<Rightarrow> 8 buf" where
  "plp_mat_copy_stride_i8s_rv32im_plain src M N strideSrc strideDst dst =
    (let offset_src = u32_sub strideSrc N;
         offset_dst = u32_sub strideDst N;
         n_iter = drop_bit 2 N;
         n_rem = N AND 3
     in if n_rem \<noteq> 0 then
          cdst_of (((\<lambda>s.
            let s1 = (cp_w8 src ^^ n_iter) s;
                s2 = (cp_elem src ^^ n_rem) s1
            in cp_next offset_src offset_dst s2) ^^ M) (0, 0, dst))
        else
          cdst_of (((\<lambda>s.
            let s1 = (cp_w8 src ^^ n_iter) s
            in cp_next offset_src offset_dst s1) ^^ M) (0, 0, dst)))"

subsection \<open>\<open>plp_mat_copy_stride_i16s_xpulpv2\<close>\<close>

text \<open>With \<open>PLP_MATH_LOOPUNROLL\<close>.\<close>

definition plp_mat_copy_stride_i16s_xpulpv2_unroll ::
  "16 buf \<Rightarrow> nat \<Rightarrow> nat \<Rightarrow> nat \<Rightarrow> nat \<Rightarrow> 16 buf \<Rightarrow> 16 buf" where
  "plp_mat_copy_stride_i16s_xpulpv2_unroll src M N strideSrc strideDst dst =
    (let n_iter = drop_bit 2 N;
         n_blk = N AND 2;
         n_rem = N AND 1
     in if n_rem \<noteq> 0 then
          (let src_offset = u32_sub strideSrc N + 1;
               dst_offset = u32_sub strideDst N + 1
           in if n_blk \<noteq> 0 then
                cdst_of (((\<lambda>s.
                  let s1 = ((\<lambda>s. cp_w16 src (cp_w16 src s)) ^^ n_iter) s;
                      s2 = cp_w16 src s1;
                      s3 = cp_last src s2
                  in cp_next src_offset dst_offset s3) ^^ M) (0, 0, dst))
              else
                cdst_of (((\<lambda>s.
                  let s1 = ((\<lambda>s. cp_w16 src (cp_w16 src s)) ^^ n_iter) s;
                      s2 = cp_last src s1
                  in cp_next src_offset dst_offset s2) ^^ M) (0, 0, dst)))
        else
          (let src_offset = u32_sub strideSrc N;
               dst_offset = u32_sub strideDst N
           in if n_blk \<noteq> 0 then
                cdst_of (((\<lambda>s.
                  let s1 = ((\<lambda>s. cp_w16 src (cp_w16 src s)) ^^ n_iter) s;
                      s2 = cp_w16 src s1
                  in cp_next src_offset dst_offset s2) ^^ M) (0, 0, dst))
              else
                cdst_of (((\<lambda>s.
                  let s1 = ((\<lambda>s. cp_w16 src (cp_w16 src s)) ^^ n_iter) s
                  in cp_next src_offset dst_offset s1) ^^ M) (0, 0, dst))))"

text \<open>Without \<open>PLP_MATH_LOOPUNROLL\<close>.\<close>

definition plp_mat_copy_stride_i16s_xpulpv2_plain ::
  "16 buf \<Rightarrow> nat \<Rightarrow> nat \<Rightarrow> nat \<Rightarrow> nat \<Rightarrow> 16 buf \<Rightarrow> 16 buf" where
  "plp_mat_copy_stride_i16s_xpulpv2_plain src M N strideSrc strideDst dst =
    (let n_iter = drop_bit 1 N;
         n_rem = N AND 1
     in if n_rem \<noteq> 0 then
          (let src_offset = u32_sub strideSrc N + 1;
               dst_offset = u32_sub strideDst N + 1
           in cdst_of (((\<lambda>s.
                let s1 = (cp_w16 src ^^ n_iter) s;
                    s2 = cp_last src s1
                in cp_next src_offset dst_offset s2) ^^ M) (0, 0, dst)))
        else
          (let src_offset = u32_sub strideSrc N;
               dst_offset = u32_sub strideDst N
           in cdst_of (((\<lambda>s.
                let s1 = (cp_w16 src ^^ n_iter) s
                in cp_next src_offset dst_offset s1) ^^ M) (0, 0, dst))))"

subsection \<open>\<open>plp_mat_copy_stride_i16p_xpulpv2\<close>\<close>

definition plp_mat_copy_stride_i16p_xpulpv2 ::
  "16 word plp_mat_copy_stride_instance \<Rightarrow> nat \<Rightarrow> 16 word pe_state option" where
  "plp_mat_copy_stride_i16p_xpulpv2 args core_id =
    (let src = cpy_pSrc args; M = cpy_M args; N = cpy_N args;
         strideSrc = cpy_strideSrc args; strideDst = cpy_strideDst args;
         nPE = cpy_nPE args; dst = cpy_pDst args;
         pSrc = strideSrc * core_id;
         pDst = strideDst * core_id;
         n_iter = drop_bit 2 N;
         n_blk = N AND 2;
         n_rem = N AND 1
     in map_option (pe_return \<circ> cdst_of)
       (if n_rem \<noteq> 0 then
          (let src_offset = u32_sub (nPE * strideSrc) N + 1;
               dst_offset = u32_sub (nPE * strideDst) N + 1
           in if n_blk \<noteq> 0 then
                for_rows M nPE (\<lambda>m s.
                  let s1 = ((\<lambda>s. cp_w16 src (cp_w16 src s)) ^^ n_iter) s;
                      s2 = cp_w16 src s1;
                      s3 = cp_last src s2
                  in cp_next src_offset dst_offset s3) core_id (pSrc, pDst, dst)
              else
                for_rows M nPE (\<lambda>m s.
                  let s1 = ((\<lambda>s. cp_w16 src (cp_w16 src s)) ^^ n_iter) s;
                      s2 = cp_last src s1
                  in cp_next src_offset dst_offset s2) core_id (pSrc, pDst, dst))
        else
          (let src_offset = u32_sub (nPE * strideSrc) N;
               dst_offset = u32_sub (nPE * strideDst) N
           in if n_blk \<noteq> 0 then
                for_rows M nPE (\<lambda>m s.
                  let s1 = ((\<lambda>s. cp_w16 src (cp_w16 src s)) ^^ n_iter) s;
                      s2 = cp_w16 src s1
                  in cp_next src_offset dst_offset s2) core_id (pSrc, pDst, dst)
              else
                for_rows M nPE (\<lambda>m s.
                  let s1 = ((\<lambda>s. cp_w16 src (cp_w16 src s)) ^^ n_iter) s
                  in cp_next src_offset dst_offset s1) core_id (pSrc, pDst, dst))))"

subsection \<open>\<open>plp_mat_copy_stride_i8p_xpulpv2\<close>\<close>

definition plp_mat_copy_stride_i8p_xpulpv2 ::
  "8 word plp_mat_copy_stride_instance \<Rightarrow> nat \<Rightarrow> 8 word pe_state option" where
  "plp_mat_copy_stride_i8p_xpulpv2 args core_id =
    (let src = cpy_pSrc args; M = cpy_M args; N = cpy_N args;
         strideSrc = cpy_strideSrc args; strideDst = cpy_strideDst args;
         nPE = cpy_nPE args; dst = cpy_pDst args;
         n_iter = drop_bit 3 N;
         n_rem = N AND 3;
         n_last_full = N AND 4;
         pSrc = strideSrc * core_id;
         pDst = strideDst * core_id;
         src_offset = u32_sub (strideSrc * nPE) N;
         dst_offset = u32_sub (strideDst * nPE) N
     in map_option (pe_return \<circ> cdst_of)
       (if n_iter = 0 then
          if n_rem = 0 then
            if n_last_full = 0 then
              Some (pSrc, pDst, dst)
            else
              for_rows M nPE (\<lambda>m s.
                let s1 = cp_w8 src s
                in cp_next src_offset dst_offset s1) core_id (pSrc, pDst, dst)
          else
            if n_last_full = 0 then
              for_rows M nPE (\<lambda>m s.
                let s1 = (cp_elem src ^^ n_rem) s
                in cp_next src_offset dst_offset s1) core_id (pSrc, pDst, dst)
            else
              for_rows M nPE (\<lambda>m s.
                let s1 = cp_w8 src s;
                    s2 = (cp_elem src ^^ n_rem) s1
                in cp_next src_offset dst_offset s2) core_id (pSrc, pDst, dst)
        else
          if n_rem = 0 then
            if n_last_full = 0 then
              for_rows M nPE (\<lambda>m s.
                let s1 = ((\<lambda>s. cp_w8 src (cp_w8 src s)) ^^ n_iter) s
                in cp_next src_offset dst_offset s1) core_id (pSrc, pDst, dst)
            else
              for_rows M nPE (\<lambda>m s.
                let s1 = ((\<lambda>s. cp_w8 src (cp_w8 src s)) ^^ n_iter) s;
                    s2 = cp_w8 src s1
                in cp_next src_offset dst_offset s2) core_id (pSrc, pDst, dst)
          else
            if n_last_full = 0 then
              for_rows M nPE (\<lambda>m s.
                let s1 = ((\<lambda>s. cp_w8 src (cp_w8 src s)) ^^ n_iter) s;
                    s2 = (cp_elem src ^^ n_rem) s1
                in cp_next src_offset dst_offset s2) core_id (pSrc, pDst, dst)
            else
              for_rows M nPE (\<lambda>m s.
                let s1 = ((\<lambda>s. cp_w8 src (cp_w8 src s)) ^^ n_iter) s;
                    s2 = cp_w8 src s1;
                    s3 = (cp_elem src ^^ n_rem) s2
                in cp_next src_offset dst_offset s3) core_id (pSrc, pDst, dst)))"

section \<open>Transposed matrix multiplication\<close>

text \<open>\<open>pSrcA[m*N + n] * pSrcB[o*N + n]\<close>: both \<open>int16_t\<close> operands are promoted to
  \<open>int\<close>; the product of two 16-bit values fits 32 bits.\<close>

definition mul_i16 :: "16 word \<Rightarrow> 16 word \<Rightarrow> 32 word" where
  "mul_i16 a b = word_of_int (sint a * sint b)"

subsection \<open>\<open>plp_mat_mult_trans_i16vp_xpulpv2\<close>\<close>

text \<open>The \<open>BASIC_VERSION\<close>, which the file selects itself. The source's \<open>O\<close> and \<open>o\<close>
  are written \<open>O'\<close> and \<open>o'\<close>.\<close>

definition plp_mat_mult_trans_i16vp_xpulpv2 ::
  "plp_mat_mult_instance_i16 \<Rightarrow> nat \<Rightarrow> 32 word pe_state option" where
  "plp_mat_mult_trans_i16vp_xpulpv2 args core_id =
    (let srcA = mm_pSrcA args; srcB = mm_pSrcB args;
         M = mm_M args; N = mm_N args; O' = mm_O args;
         nPE = mm_nPE args; dstC = mm_pDstC args
     in map_option (rt_team_barrier \<circ> pe_return)
       (for_rows M nPE (\<lambda>m dstC.
          fold (\<lambda>o' dstC.
            let sum = fold (\<lambda>n sum. c_add sum (mul_i16 (srcA (m * N + n)) (srcB (o' * N + n))))
                        [0..<N] 0
            in dstC(m * O' + o' := sum)) [0..<O'] dstC) core_id dstC))"

section \<open>Reference computations\<close>

text \<open>
  The row-major double loop of the spec, with the arithmetic of the element type:
  \<open>pDst[m*strideY + n] = pSrcA[m*strideA + n] OP pSrcB[m*strideB + n]\<close> for every
  \<open>0 \<le> m < M\<close>, \<open>0 \<le> n < N\<close>, and the same for the copy with its one source.
\<close>

definition ref_mat_op ::
  "('a word \<Rightarrow> 'a word \<Rightarrow> 'a word) \<Rightarrow> 'a buf \<Rightarrow> 'a buf \<Rightarrow> nat \<Rightarrow> nat \<Rightarrow> nat \<Rightarrow> nat \<Rightarrow> nat
     \<Rightarrow> 'a buf \<Rightarrow> 'a buf" where
  "ref_mat_op opr srcA srcB M N strideA strideB strideY dst =
     fold (\<lambda>m dst.
       fold (\<lambda>n dst. dst(m * strideY + n := opr (srcA (m * strideA + n)) (srcB (m * strideB + n))))
         [0..<N] dst)
       [0..<M] dst"


text \<open>
  All processing elements of a parallel kernel, one after the other in the order of
  their core ids; each call finds the destination as the calls before it left it.
\<close>

definition run_cores :: "(nat \<Rightarrow> (nat \<Rightarrow> 'e) \<Rightarrow> 'e pe_state option) \<Rightarrow> nat \<Rightarrow> (nat \<Rightarrow> 'e) \<Rightarrow> (nat \<Rightarrow> 'e) option" where
  "run_cores call nPE dst =
     fold (\<lambda>core_id r. case r of None \<Rightarrow> None | Some d \<Rightarrow> map_option pe_dst (call core_id d))
       [0..<nPE] (Some dst)"

section \<open>What a pass over the destination leaves behind\<close>

text \<open>
  \<open>fill f d k mem\<close> is the memory \<open>mem\<close> after the \<open>k\<close> cells from index \<open>d\<close> on have
  received \<open>f 0, .., f (k - 1)\<close>. \<open>fill_rows f d sy N k mem\<close> is \<open>mem\<close> after \<open>k\<close>
  rows of \<open>N\<close> cells, row \<open>j\<close> starting at \<open>d + j * sy\<close>, have received \<open>f j\<close>, one row
  after the other.
\<close>

definition fill :: "(nat \<Rightarrow> 'v) \<Rightarrow> nat \<Rightarrow> nat \<Rightarrow> (nat \<Rightarrow> 'v) \<Rightarrow> (nat \<Rightarrow> 'v)" where
  "fill f d k mem = (\<lambda>i. if d \<le> i \<and> i < d + k then f (i - d) else mem i)"

fun fill_rows :: "(nat \<Rightarrow> nat \<Rightarrow> 'v) \<Rightarrow> nat \<Rightarrow> nat \<Rightarrow> nat \<Rightarrow> nat \<Rightarrow> (nat \<Rightarrow> 'v) \<Rightarrow> (nat \<Rightarrow> 'v)" where
  "fill_rows f d sy N 0 mem = mem"
| "fill_rows f d sy N (Suc k) mem = fill (f k) (d + k * sy) N (fill_rows f d sy N k mem)"

text \<open>The walking states after \<open>k\<close> elements, and after one whole row with the pointers
  moved to the next row.\<close>

definition elems :: "(nat \<Rightarrow> nat \<Rightarrow> 'v) \<Rightarrow> nat \<Rightarrow> nat \<times> nat \<times> nat \<times> (nat \<Rightarrow> 'v) \<Rightarrow> nat \<times> nat \<times> nat \<times> (nat \<Rightarrow> 'v)" where
  "elems g k = (\<lambda>(a, b, d, mem). (a + k, b + k, d + k, fill (\<lambda>j. g (a + j) (b + j)) d k mem))"

definition row_step :: "(nat \<Rightarrow> nat \<Rightarrow> 'v) \<Rightarrow> nat \<Rightarrow> nat \<Rightarrow> nat \<Rightarrow> nat \<Rightarrow> nat \<times> nat \<times> nat \<times> (nat \<Rightarrow> 'v) \<Rightarrow> nat \<times> nat \<times> nat \<times> (nat \<Rightarrow> 'v)" where
  "row_step g N sa sb sy = (\<lambda>(a, b, d, mem). (a + sa, b + sb, d + sy, fill (\<lambda>j. g (a + j) (b + j)) d N mem))"

definition celems :: "(nat \<Rightarrow> 'v) \<Rightarrow> nat \<Rightarrow> nat \<times> nat \<times> (nat \<Rightarrow> 'v) \<Rightarrow> nat \<times> nat \<times> (nat \<Rightarrow> 'v)" where
  "celems src k = (\<lambda>(a, d, mem). (a + k, d + k, fill (\<lambda>j. src (a + j)) d k mem))"

definition crow_step :: "(nat \<Rightarrow> 'v) \<Rightarrow> nat \<Rightarrow> nat \<Rightarrow> nat \<Rightarrow> nat \<times> nat \<times> (nat \<Rightarrow> 'v) \<Rightarrow> nat \<times> nat \<times> (nat \<Rightarrow> 'v)" where
  "crow_step src N sa sy = (\<lambda>(a, d, mem). (a + sa, d + sy, fill (\<lambda>j. src (a + j)) d N mem))"

text \<open>The number of iterations of \<open>for (m = m0; m < M; m += nPE)\<close>.\<close>

definition row_count :: "nat \<Rightarrow> nat \<Rightarrow> nat \<Rightarrow> nat" where
  "row_count M nPE m0 = (M + nPE - 1 - m0) div nPE"

text \<open>
  \<open>mat_fill f M N sy mem\<close> is \<open>mem\<close> after the whole logical \<open>M\<close> by \<open>N\<close> view with
  row stride \<open>sy\<close> has received \<open>f m n\<close> at row \<open>m\<close>, column \<open>n\<close>. \<open>pe_fill\<close> is the
  same for the rows \<open>core_id, core_id + nPE, ..\<close> below \<open>M\<close>: the share of one processing
  element. \<open>cores_fill .. k\<close> is the memory after the shares of the cores \<open>0, .., k - 1\<close>.
\<close>

definition mat_fill :: "(nat \<Rightarrow> nat \<Rightarrow> 'v) \<Rightarrow> nat \<Rightarrow> nat \<Rightarrow> nat \<Rightarrow> (nat \<Rightarrow> 'v) \<Rightarrow> (nat \<Rightarrow> 'v)" where
  "mat_fill f M N sy mem = fill_rows f 0 sy N M mem"

definition pe_fill :: "(nat \<Rightarrow> nat \<Rightarrow> 'v) \<Rightarrow> nat \<Rightarrow> nat \<Rightarrow> nat \<Rightarrow> nat \<Rightarrow> nat \<Rightarrow> (nat \<Rightarrow> 'v) \<Rightarrow> (nat \<Rightarrow> 'v)" where
  "pe_fill f M N sy nPE core_id mem =
     fill_rows (\<lambda>j. f (core_id + j * nPE)) (core_id * sy) (nPE * sy) N (row_count M nPE core_id) mem"

fun cores_fill :: "(nat \<Rightarrow> nat \<Rightarrow> 'v) \<Rightarrow> nat \<Rightarrow> nat \<Rightarrow> nat \<Rightarrow> nat \<Rightarrow> nat \<Rightarrow> (nat \<Rightarrow> 'v) \<Rightarrow> (nat \<Rightarrow> 'v)" where
  "cores_fill f M N sy nPE 0 mem = mem"
| "cores_fill f M N sy nPE (Suc k) mem = pe_fill f M N sy nPE k (cores_fill f M N sy nPE k mem)"

text \<open>The two-row walking state after \<open>k\<close> elements of both rows, and the two-row state
  that belongs to a one-row state.\<close>

definition celems2 :: "(nat \<Rightarrow> 'v) \<Rightarrow> nat \<Rightarrow> nat \<times> nat \<times> nat \<times> nat \<times> (nat \<Rightarrow> 'v) \<Rightarrow> nat \<times> nat \<times> nat \<times> nat \<times> (nat \<Rightarrow> 'v)" where
  "celems2 src k = (\<lambda>(a1, a2, d1, d2, mem).
     (a1 + k, a2 + k, d1 + k, d2 + k, fill (\<lambda>j. src (a2 + j)) d2 k (fill (\<lambda>j. src (a1 + j)) d1 k mem)))"

definition pair_of :: "nat \<Rightarrow> nat \<Rightarrow> nat \<times> nat \<times> (nat \<Rightarrow> 'v) \<Rightarrow> nat \<times> nat \<times> nat \<times> nat \<times> (nat \<Rightarrow> 'v)" where
  "pair_of sa sy = (\<lambda>(a, d, mem). (a, a + sa, d, d + sy, mem))"

text \<open>The rows of one processing element in closed form, and the rows that all
  processing elements visit, core after core.\<close>

definition pe_rows :: "nat \<Rightarrow> nat \<Rightarrow> nat \<Rightarrow> nat list" where
  "pe_rows M nPE core_id = map (\<lambda>j. core_id + j * nPE) [0..<row_count M nPE core_id]"

definition all_rows_visited :: "nat \<Rightarrow> nat \<Rightarrow> nat list" where
  "all_rows_visited M nPE =
     concat (map (\<lambda>core_id. case rows_visited M nPE core_id of Some ms \<Rightarrow> ms | None \<Rightarrow> []) [0..<nPE])"

text \<open>The dot product of row \<open>m\<close> of \<open>A\<close> with row \<open>k\<close> of \<open>B\<close>, both of length \<open>N\<close>, in
  32-bit arithmetic.\<close>

definition dot_i16 :: "(nat \<Rightarrow> 16 word) \<Rightarrow> (nat \<Rightarrow> 16 word) \<Rightarrow> nat \<Rightarrow> nat \<Rightarrow> nat \<Rightarrow> 32 word" where
  "dot_i16 srcA srcB N m k = (\<Sum>n<N. mul_i16 (srcA (m * N + n)) (srcB (k * N + n)))"

text \<open>The argument structs of the parallel kernels, built from their fields.\<close>

abbreviation add_args ::
  "(nat \<Rightarrow> 'e) \<Rightarrow> (nat \<Rightarrow> 'e) \<Rightarrow> nat \<Rightarrow> nat \<Rightarrow> nat \<Rightarrow> nat \<Rightarrow> nat \<Rightarrow> nat \<Rightarrow> (nat \<Rightarrow> 'e)
     \<Rightarrow> 'e plp_mat_add_stride_instance" where
  "add_args srcA srcB M N strideA strideB strideY nPE dst \<equiv>
     \<lparr>add_pSrcA = srcA, add_pSrcB = srcB, add_M = M, add_N = N, add_strideA = strideA,
      add_strideB = strideB, add_strideY = strideY, add_nPE = nPE, add_pDst = dst\<rparr>"

abbreviation cpy_args ::
  "(nat \<Rightarrow> 'e) \<Rightarrow> nat \<Rightarrow> nat \<Rightarrow> nat \<Rightarrow> nat \<Rightarrow> nat \<Rightarrow> (nat \<Rightarrow> 'e) \<Rightarrow> 'e plp_mat_copy_stride_instance" where
  "cpy_args src M N strideSrc strideDst nPE dst \<equiv>
     \<lparr>cpy_pSrc = src, cpy_M = M, cpy_N = N, cpy_strideSrc = strideSrc,
      cpy_strideDst = strideDst, cpy_nPE = nPE, cpy_pDst = dst\<rparr>"

abbreviation mm_args ::
  "16 buf \<Rightarrow> 16 buf \<Rightarrow> nat \<Rightarrow> nat \<Rightarrow> nat \<Rightarrow> nat \<Rightarrow> 32 buf \<Rightarrow> plp_mat_mult_instance_i16" where
  "mm_args srcA srcB M N O' nPE dstC \<equiv>
     \<lparr>mm_pSrcA = srcA, mm_pSrcB = srcB, mm_M = M, mm_N = N, mm_O = O', mm_nPE = nPE,
      mm_pDstC = dstC\<rparr>"

section \<open>The team of processing elements in the transposed multiplication\<close>

text \<open>The body of the row loop of \<open>plp_mat_mult_trans_i16vp_xpulpv2\<close>, for the row
  \<open>m\<close>: the loops over \<open>o\<close> and \<open>n\<close> and the store into \<open>pDstC[m * O + o]\<close>.\<close>

definition mult_trans_row :: "plp_mat_mult_instance_i16 \<Rightarrow> nat \<Rightarrow> 32 buf \<Rightarrow> 32 buf" where
  "mult_trans_row args m dstC =
    (let srcA = mm_pSrcA args; srcB = mm_pSrcB args; N = mm_N args; O' = mm_O args
     in fold (\<lambda>o' dstC.
          let sum = fold (\<lambda>n sum. c_add sum (mul_i16 (srcA (m * N + n)) (srcB (o' * N + n))))
                      [0..<N] 0
          in dstC(m * O' + o' := sum)) [0..<O'] dstC)"

text \<open>
  Where a processing element is in its call: in the row loop with the loop counter at
  \<open>m\<close>, inside \<open>rt_team_barrier\<close>, or returned.
\<close>

datatype pe_pc = In_loop nat | At_barrier | Returned

fun arrived :: "pe_pc \<Rightarrow> bool" where
  "arrived (In_loop m) = False"
| "arrived At_barrier = True"
| "arrived Returned = True"

text \<open>
  The calls of all \<open>nPE\<close> processing elements together: where each one is, how many
  barriers each one has left behind, and the destination buffer they share.
\<close>

record team =
  team_pc :: "nat \<Rightarrow> pe_pc"
  team_barriers :: "nat \<Rightarrow> nat"
  team_dstC :: "32 buf"

definition all_arrived :: "nat \<Rightarrow> team \<Rightarrow> bool" where
  "all_arrived nPE t = list_all (\<lambda>q. arrived (team_pc t q)) [0..<nPE]"

text \<open>
  One step of the processing element \<open>p\<close>: one pass through
  \<open>for (m = core_id; m < M; m += nPE)\<close>, which is the row \<open>m\<close> and the increment, or the
  end of the loop, which is the call of \<open>rt_team_barrier\<close>; inside the barrier, the
  return once every processing element of the team is there.

  Modelled from the spec: \<open>rt_team_barrier\<close> belongs to the runtime, which is not among
  the sources; the spec calls it "a barrier/rendezvous primitive blocking the calling
  processing element until all \<open>nPE\<close> participants arrive". A processing element that
  is scheduled while it is blocked stays where it is.
\<close>

definition mult_trans_step :: "plp_mat_mult_instance_i16 \<Rightarrow> nat \<Rightarrow> team \<Rightarrow> team" where
  "mult_trans_step args p t =
    (if p < mm_nPE args then
       (case team_pc t p of
          In_loop m \<Rightarrow>
            if m < mm_M args
            then t\<lparr>team_pc := (team_pc t)(p := In_loop (m + mm_nPE args)),
                   team_dstC := mult_trans_row args m (team_dstC t)\<rparr>
            else t\<lparr>team_pc := (team_pc t)(p := At_barrier)\<rparr>
        | At_barrier \<Rightarrow>
            if all_arrived (mm_nPE args) t
            then t\<lparr>team_pc := (team_pc t)(p := Returned),
                   team_barriers := (team_barriers t)(p := team_barriers t p + 1)\<rparr>
            else t
        | Returned \<Rightarrow> t)
     else t)"

text \<open>Every processing element enters its call with \<open>m = core_id\<close>; a schedule is the
  order in which the processing elements take their steps.\<close>

definition team_start :: "plp_mat_mult_instance_i16 \<Rightarrow> team" where
  "team_start args = \<lparr>team_pc = In_loop, team_barriers = (\<lambda>p. 0), team_dstC = mm_pDstC args\<rparr>"

definition team_run :: "plp_mat_mult_instance_i16 \<Rightarrow> nat list \<Rightarrow> team" where
  "team_run args sched = fold (mult_trans_step args) sched (team_start args)"

text \<open>
  For the proofs about a team: the row \<open>r\<close> is done when the processing element that owns
  it has its loop counter beyond \<open>r\<close> or has left the loop; \<open>todo\<close> bounds the steps a
  processing element still has to take.
\<close>

definition row_done :: "nat \<Rightarrow> team \<Rightarrow> nat \<Rightarrow> bool" where
  "row_done nPE t r = (case team_pc t (r mod nPE) of In_loop m \<Rightarrow> r < m | _ \<Rightarrow> True)"

fun todo :: "nat \<Rightarrow> pe_pc \<Rightarrow> nat" where
  "todo M (In_loop m) = M - m + 2"
| "todo M At_barrier = 1"
| "todo M Returned = 0"

definition team_todo :: "plp_mat_mult_instance_i16 \<Rightarrow> team \<Rightarrow> nat" where
  "team_todo args t = (\<Sum>p<mm_nPE args. todo (mm_M args) (team_pc t p))"

section \<open>Square root\<close>

subsection \<open>Single-precision arithmetic\<close>

text \<open>
  The type \<open>float\<close> of the kernel is the IEEE 754 binary32 format. A finite value is a
  sign, a significand and an exponent, \<open>Finite s m e\<close> standing for
  \<open>(-1)\<^sup>s * m * 2\<^sup>e\<close>; in the canonical form of a value \<open>m < 2\<^sup>2\<^sup>4\<close> and
  \<open>-149 \<le> e \<le> 104\<close>, and \<open>e = -149\<close> for a subnormal value. Both zeros, both infinities
  and NaN are values of the type. Every operation computes the exact result as a ratio
  of two natural numbers and rounds it once, to the nearest value, ties to the even
  significand, as the default rounding mode does.
\<close>

datatype f32 = Finite bool nat int | Infinity bool | NaN

text \<open>The literals \<open>0.f\<close>, \<open>1.f\<close>, \<open>2.f\<close> and \<open>1.5f\<close> of the source.\<close>

abbreviation zero_f :: f32 where "zero_f \<equiv> Finite False 0 0"
abbreviation one_f :: f32 where "one_f \<equiv> Finite False 1 0"
abbreviation two_f :: f32 where "two_f \<equiv> Finite False 2 0"
abbreviation three_halves_f :: f32 where "three_halves_f \<equiv> Finite False 3 (- 1)"

text \<open>The number of binary digits of \<open>n\<close>.\<close>

fun blen :: "nat \<Rightarrow> nat" where
  "blen n = (if n = 0 then 0 else 1 + blen (n div 2))"

declare blen.simps [simp del]

text \<open>\<open>m * 2\<^sup>e\<close> is the ratio \<open>num_of m e / den_of e\<close>.\<close>

definition num_of :: "nat \<Rightarrow> int \<Rightarrow> nat" where
  "num_of m e = (if 0 \<le> e then m * 2 ^ nat e else m)"

definition den_of :: "int \<Rightarrow> nat" where
  "den_of e = (if 0 \<le> e then 1 else 2 ^ nat (- e))"

text \<open>The magnitude with its sign.\<close>

definition with_sign :: "bool \<Rightarrow> nat \<Rightarrow> int" where
  "with_sign s n = (if s then - int n else int n)"

text \<open>
  \<open>ilog p q\<close> is the exponent of the leading binary digit of \<open>p / q\<close>, for \<open>p\<close> and \<open>q\<close>
  positive: the difference \<open>d\<close> of the digit counts, or \<open>d - 1\<close> when \<open>p / q < 2\<^sup>d\<close>.
\<close>

definition ilog_from :: "int \<Rightarrow> nat \<Rightarrow> nat \<Rightarrow> int" where
  "ilog_from d p q = (if num_of q d \<le> p * den_of d then d else d - 1)"

definition ilog :: "nat \<Rightarrow> nat \<Rightarrow> int" where
  "ilog p q = ilog_from (int (blen p) - int (blen q)) p q"

text \<open>Quotient \<open>m\<close> and remainder \<open>r\<close> of a division by \<open>den\<close>, rounded to the nearest
  integer, a tie to the even one.\<close>

definition nearest_even :: "nat \<Rightarrow> nat \<Rightarrow> nat \<Rightarrow> nat" where
  "nearest_even m r den =
     (if 2 * r < den then m else if den < 2 * r then m + 1 else if even m then m else m + 1)"

text \<open>
  The rounded significand \<open>m\<close> at the exponent \<open>e\<close> as a value: a significand rounded down
  to nothing is a zero, one rounded up to \<open>2\<^sup>2\<^sup>4\<close> moves to the next exponent, and a
  magnitude of \<open>2\<^sup>1\<^sup>2\<^sup>8\<close> or more is an infinity.
\<close>

definition f32_pack :: "bool \<Rightarrow> nat \<Rightarrow> int \<Rightarrow> f32" where
  "f32_pack s m e =
     (if m = 0 then Finite s 0 0
      else if 104 < e then Infinity s
      else if m = 16777216 then (if e = 104 then Infinity s else Finite s 8388608 (e + 1))
      else Finite s m e)"

definition round_ratio :: "bool \<Rightarrow> nat \<Rightarrow> nat \<Rightarrow> int \<Rightarrow> f32" where
  "round_ratio s num den e = f32_pack s (nearest_even (num div den) (num mod den) den) e"

definition round_at :: "bool \<Rightarrow> nat \<Rightarrow> nat \<Rightarrow> int \<Rightarrow> f32" where
  "round_at s p q e = round_ratio s (p * den_of e) (num_of q e) e"

text \<open>
  \<open>f32_round s p q\<close> is the value nearest to \<open>(-1)\<^sup>s * p / q\<close>, for \<open>q\<close> positive: the
  significand has 24 digits below the leading digit of \<open>p / q\<close>, and fewer once the
  exponent would go below \<open>-149\<close>.
\<close>

definition f32_round :: "bool \<Rightarrow> nat \<Rightarrow> nat \<Rightarrow> f32" where
  "f32_round s p q =
     (if p = 0 then Finite s 0 0 else round_at s p q (max (ilog p q - 23) (- 149)))"

text \<open>The product \<open>a * b\<close>.\<close>

fun f32_mul :: "f32 \<Rightarrow> f32 \<Rightarrow> f32" where
  "f32_mul NaN _ = NaN"
| "f32_mul _ NaN = NaN"
| "f32_mul (Infinity s) (Infinity t) = Infinity (s \<noteq> t)"
| "f32_mul (Infinity s) (Finite t m e) = (if m = 0 then NaN else Infinity (s \<noteq> t))"
| "f32_mul (Finite s m e) (Infinity t) = (if m = 0 then NaN else Infinity (s \<noteq> t))"
| "f32_mul (Finite s m e) (Finite t n f) =
     f32_round (s \<noteq> t) (num_of m e * num_of n f) (den_of e * den_of f)"

text \<open>The quotient \<open>a / b\<close>; a division by zero gives an infinity, \<open>0 / 0\<close> gives NaN.\<close>

fun f32_div :: "f32 \<Rightarrow> f32 \<Rightarrow> f32" where
  "f32_div NaN _ = NaN"
| "f32_div _ NaN = NaN"
| "f32_div (Infinity s) (Infinity t) = NaN"
| "f32_div (Infinity s) (Finite t m e) = Infinity (s \<noteq> t)"
| "f32_div (Finite s m e) (Infinity t) = Finite (s \<noteq> t) 0 0"
| "f32_div (Finite s m e) (Finite t n f) =
     (if n = 0 then (if m = 0 then NaN else Infinity (s \<noteq> t))
      else f32_round (s \<noteq> t) (num_of m e * den_of f) (den_of e * num_of n f))"

text \<open>The exact difference \<open>c / q\<close> rounded; an exact zero takes the sign \<open>z\<close>.\<close>

definition round_int :: "int \<Rightarrow> nat \<Rightarrow> bool \<Rightarrow> f32" where
  "round_int c q z = (if c = 0 then Finite z 0 0 else f32_round (c < 0) (nat \<bar>c\<bar>) q)"

text \<open>The difference \<open>a - b\<close>; an exact zero is \<open>+0\<close> unless \<open>a\<close> is \<open>-0\<close> and \<open>b\<close> is
  \<open>+0\<close>.\<close>

fun f32_sub :: "f32 \<Rightarrow> f32 \<Rightarrow> f32" where
  "f32_sub NaN _ = NaN"
| "f32_sub _ NaN = NaN"
| "f32_sub (Infinity s) (Infinity t) = (if s = t then NaN else Infinity s)"
| "f32_sub (Infinity s) (Finite t m e) = Infinity s"
| "f32_sub (Finite s m e) (Infinity t) = Infinity (\<not> t)"
| "f32_sub (Finite s m e) (Finite t n f) =
     round_int (with_sign s (num_of m e * den_of f) - with_sign t (num_of n f * den_of e))
       (den_of e * den_of f) (s \<and> \<not> t)"

text \<open>The comparisons \<open>a > b\<close> and \<open>a <= b\<close>; both are false when an operand is NaN, and
  the two zeros are equal.\<close>

fun f32_gt :: "f32 \<Rightarrow> f32 \<Rightarrow> bool" where
  "f32_gt NaN _ = False"
| "f32_gt _ NaN = False"
| "f32_gt (Infinity s) (Infinity t) = (t \<and> \<not> s)"
| "f32_gt (Infinity s) (Finite t m e) = (\<not> s)"
| "f32_gt (Finite s m e) (Infinity t) = t"
| "f32_gt (Finite s m e) (Finite t n f) =
     (with_sign t (num_of n f * den_of e) < with_sign s (num_of m e * den_of f))"

fun f32_le :: "f32 \<Rightarrow> f32 \<Rightarrow> bool" where
  "f32_le NaN _ = False"
| "f32_le _ NaN = False"
| "f32_le (Infinity s) (Infinity t) = (s \<or> s = t)"
| "f32_le (Infinity s) (Finite t m e) = s"
| "f32_le (Finite s m e) (Infinity t) = (\<not> t)"
| "f32_le (Finite s m e) (Finite t n f) =
     (with_sign s (num_of m e * den_of f) \<le> with_sign t (num_of n f * den_of e))"

text \<open>The real number a finite value stands for.\<close>

fun valof :: "f32 \<Rightarrow> real" where
  "valof (Finite s m e) = (if s then - 1 else 1) * real (num_of m e) / real (den_of e)"
| "valof (Infinity s) = 0"
| "valof NaN = 0"

subsection \<open>\<open>plp_sqrt_f32s_xpulpv2\<close>\<close>

text \<open>
  The kernel reads one value through \<open>pSrc\<close> and writes one value through \<open>pRes\<close>; the
  model maps the value read to the value written. \<open>newton_step half\<close> is the statement
  of the loop body, every operation of it rounded on its own, in the order the
  expression is written.
\<close>

definition numIters :: nat where "numIters = 15"

definition newton_step :: "f32 \<Rightarrow> f32 \<Rightarrow> f32" where
  "newton_step half intermediate =
     f32_mul intermediate
       (f32_sub three_halves_f (f32_mul (f32_mul intermediate intermediate) half))"

definition plp_sqrt_f32s_xpulpv2 :: "f32 \<Rightarrow> f32" where
  "plp_sqrt_f32s_xpulpv2 pSrc =
    (let intermediate = f32_div one_f (f32_mul two_f pSrc);
         half = f32_div pSrc two_f
     in if f32_gt half zero_f
        then f32_mul ((newton_step half ^^ numIters) intermediate) pSrc
        else zero_f)"

section \<open>Lemmas\<close>

lemma c_add_eq: "c_add a b = a + b"
  by (simp add: c_add_def)

lemma c_sub_eq: "c_sub a b = a - b"
  by (simp add: c_sub_def)

lemma u32_sub_le: "b \<le> a \<Longrightarrow> u32_sub a b = a - b"
  by (simp add: u32_sub_def)

lemma fill_0 [simp]: "fill f d 0 mem = mem"
  by (auto simp add: fill_def fun_eq_iff)

lemma fill_fill: "fill (\<lambda>j. f (k + j)) (d + k) j (fill f d k mem) = fill f d (k + j) mem"
  by (auto simp add: fill_def fun_eq_iff)

lemma elems_0 [simp]: "elems g 0 s = s"
  by (cases s) (simp add: elems_def)

lemma elems_elems: "elems g j (elems g k s) = elems g (k + j) s"
proof -
  obtain a b d mem where s: "s = (a, b, d, mem)" by (cases s)
  have "fill (\<lambda>i. g (a + k + i) (b + k + i)) (d + k) j (fill (\<lambda>i. g (a + i) (b + i)) d k mem)
      = fill (\<lambda>i. g (a + i) (b + i)) d (k + j) mem"
    using fill_fill [of "\<lambda>i. g (a + i) (b + i)" k d j mem] by (simp add: add.assoc)
  then show ?thesis by (simp add: s elems_def add.assoc)
qed

lemma elems_funpow: "(elems g c ^^ n) s = elems g (n * c) s"
proof (induction n)
  case 0 show ?case by simp
next
  case (Suc n)
  then show ?case by (simp add: elems_elems add.commute)
qed

lemma celems_0 [simp]: "celems src 0 s = s"
  by (cases s) (simp add: celems_def)

lemma celems_celems: "celems src j (celems src k s) = celems src (k + j) s"
proof -
  obtain a d mem where s: "s = (a, d, mem)" by (cases s)
  have "fill (\<lambda>i. src (a + k + i)) (d + k) j (fill (\<lambda>i. src (a + i)) d k mem)
      = fill (\<lambda>i. src (a + i)) d (k + j) mem"
    using fill_fill [of "\<lambda>i. src (a + i)" k d j mem] by (simp add: add.assoc)
  then show ?thesis by (simp add: s celems_def add.assoc)
qed

lemma celems_funpow: "(celems src c ^^ n) s = celems src (n * c) s"
proof (induction n)
  case 0 show ?case by simp
next
  case (Suc n)
  then show ?case by (simp add: celems_celems add.commute)
qed

lemma row_step_funpow:
  "(row_step g N sa sb sy ^^ k) (a, b, d, mem) =
     (a + k * sa, b + k * sb, d + k * sy,
      fill_rows (\<lambda>j n. g (a + j * sa + n) (b + j * sb + n)) d sy N k mem)"
  by (induction k) (simp_all add: row_step_def)

lemma crow_step_funpow:
  "(crow_step src N sa sy ^^ k) (a, d, mem) =
     (a + k * sa, d + k * sy, fill_rows (\<lambda>j n. src (a + j * sa + n)) d sy N k mem)"
  by (induction k) (simp_all add: crow_step_def)

lemma fill_rows_other:
  "(\<And>j n. j < k \<Longrightarrow> n < N \<Longrightarrow> i \<noteq> d + j * sy + n) \<Longrightarrow> fill_rows f d sy N k mem i = mem i"
proof (induction k)
  case 0 show ?case by simp
next
  case (Suc k)
  have a: "\<not> (d + k * sy \<le> i \<and> i < d + k * sy + N)"
  proof
    assume h: "d + k * sy \<le> i \<and> i < d + k * sy + N"
    then have "i = d + k * sy + (i - (d + k * sy))" and "i - (d + k * sy) < N" by auto
    with Suc.prems [of k "i - (d + k * sy)"] show False by simp
  qed
  have "fill_rows f d sy N k mem i = mem i"
    by (rule Suc.IH) (use Suc.prems in auto)
  with a show ?case by (auto simp add: fill_def)
qed

lemma fill_rows_at:
  assumes "N \<le> sy" "j < k" "n < N"
  shows "fill_rows f d sy N k mem (d + j * sy + n) = f j n"
  using assms(2)
proof (induction k)
  case 0 then show ?case by simp
next
  case (Suc k)
  show ?case
  proof (cases "j = k")
    case True
    with assms(3) show ?thesis by (simp add: fill_def)
  next
    case False
    with Suc.prems have jk: "j < k" by simp
    then have "Suc j * sy \<le> k * sy" by (intro mult_le_mono1) simp
    with assms(1,3) have "d + j * sy + n < d + k * sy" by simp
    with Suc.IH [OF jk] show ?thesis by (simp add: fill_def)
  qed
qed

lemma lane16_lo: "(ucast (ucast (a::16 word) OR push_bit 16 (ucast (b::16 word)) :: 32 word) :: 16 word) = a"
  by (rule bit_word_eqI) (auto simp add: bit_simps dest: bit_imp_le_length)
lemma lane16_hi: "(ucast (drop_bit 16 (ucast (a::16 word) OR push_bit 16 (ucast (b::16 word)) :: 32 word)) :: 16 word) = b"
  by (rule bit_word_eqI) (auto simp add: bit_simps dest: bit_imp_le_length)

lemma lane8_0: "(ucast (ucast (a::8 word) OR push_bit 8 (ucast (b::8 word)) OR push_bit 16 (ucast (c::8 word)) OR push_bit 24 (ucast (d::8 word)) :: 32 word) :: 8 word) = a"
  by (rule bit_word_eqI) (auto simp add: bit_simps dest: bit_imp_le_length)
lemma lane8_1: "(ucast (drop_bit 8 (ucast (a::8 word) OR push_bit 8 (ucast (b::8 word)) OR push_bit 16 (ucast (c::8 word)) OR push_bit 24 (ucast (d::8 word)) :: 32 word)) :: 8 word) = b"
  by (rule bit_word_eqI) (auto simp add: bit_simps dest: bit_imp_le_length)
lemma lane8_2: "(ucast (drop_bit 16 (ucast (a::8 word) OR push_bit 8 (ucast (b::8 word)) OR push_bit 16 (ucast (c::8 word)) OR push_bit 24 (ucast (d::8 word)) :: 32 word)) :: 8 word) = c"
  by (rule bit_word_eqI) (auto simp add: bit_simps dest: bit_imp_le_length)
lemma lane8_3: "(ucast (drop_bit 24 (ucast (a::8 word) OR push_bit 8 (ucast (b::8 word)) OR push_bit 16 (ucast (c::8 word)) OR push_bit 24 (ucast (d::8 word)) :: 32 word)) :: 8 word) = d"
  by (rule bit_word_eqI) (auto simp add: bit_simps dest: bit_imp_le_length)

lemma st_ld_w16: "st_w16 mem d (ld_w16 src a) = mem(d := src a, d + 1 := src (a + 1))"
  by (simp only: st_w16_def ld_w16_def lane16_lo lane16_hi)

lemma st_ADD2: "st_w16 mem d (ADD2 (ld_w16 srcA a) (ld_w16 srcB b))
   = mem(d := srcA a + srcB b, d + 1 := srcA (a + 1) + srcB (b + 1))"
  by (simp only: st_w16_def ld_w16_def ADD2_def lane16_lo lane16_hi)

lemma st_SUB2: "st_w16 mem d (SUB2 (ld_w16 srcA a) (ld_w16 srcB b))
   = mem(d := srcA a - srcB b, d + 1 := srcA (a + 1) - srcB (b + 1))"
  by (simp only: st_w16_def ld_w16_def SUB2_def lane16_lo lane16_hi)

lemma st_ld_w8: "st_w8 mem d (ld_w8 src a)
   = mem(d := src a, d + 1 := src (a + 1), d + 2 := src (a + 2), d + 3 := src (a + 3))"
  by (simp only: st_w8_def ld_w8_def lane8_0 lane8_1 lane8_2 lane8_3)

lemma st_ADD4: "st_w8 mem d (ADD4 (ld_w8 srcA a) (ld_w8 srcB b))
   = mem(d := srcA a + srcB b, d + 1 := srcA (a + 1) + srcB (b + 1),
         d + 2 := srcA (a + 2) + srcB (b + 2), d + 3 := srcA (a + 3) + srcB (b + 3))"
  by (simp only: st_w8_def ld_w8_def ADD4_def lane8_0 lane8_1 lane8_2 lane8_3)

lemma upd1_fill: "mem(d := f 0) = fill f d 1 mem"
  by (auto simp add: fill_def fun_eq_iff)

lemma upd2_fill: "mem(d := f 0, d + 1 := f 1) = fill f d 2 mem"
  by (auto simp add: fill_def fun_eq_iff)

lemma fill_Suc: "fill f d (Suc k) mem = (fill f d k mem)(d + k := f k)"
  by (auto simp add: fill_def fun_eq_iff)

lemma elem_step_add: "elem_step c_add srcA srcB = elems (\<lambda>a b. srcA a + srcB b) 1"
  by (rule ext) (auto simp add: elem_step_def elems_def c_add_eq fill_Suc)

lemma elem_step_sub: "elem_step c_sub srcA srcB = elems (\<lambda>a b. srcA a - srcB b) 1"
  by (rule ext) (auto simp add: elem_step_def elems_def c_sub_eq fill_Suc)

lemma elem_step2_add: "elem_step2 c_add srcA srcB = elems (\<lambda>a b. srcA a + srcB b) 2"
  by (rule ext) (auto simp add: elem_step2_def elems_def c_add_eq fill_Suc eval_nat_numeral)

lemma elem_step2_sub: "elem_step2 c_sub srcA srcB = elems (\<lambda>a b. srcA a - srcB b) 2"
  by (rule ext) (auto simp add: elem_step2_def elems_def c_sub_eq fill_Suc eval_nat_numeral)

lemma v2s_step_add: "v2s_step ADD2 srcA srcB = elems (\<lambda>a b. srcA a + srcB b) 2"
  by (rule ext) (auto simp add: v2s_step_def elems_def st_ADD2 fill_Suc eval_nat_numeral)

lemma v2s_step_sub: "v2s_step SUB2 srcA srcB = elems (\<lambda>a b. srcA a - srcB b) 2"
  by (rule ext) (auto simp add: v2s_step_def elems_def st_SUB2 fill_Suc eval_nat_numeral)

lemma v2s_step2_add: "v2s_step2 ADD2 srcA srcB = elems (\<lambda>a b. srcA a + srcB b) 4"
  by (rule ext) (auto simp add: v2s_step2_def elems_def st_ADD2 fill_Suc eval_nat_numeral)

lemma v2s_step2_sub: "v2s_step2 SUB2 srcA srcB = elems (\<lambda>a b. srcA a - srcB b) 4"
  by (rule ext) (auto simp add: v2s_step2_def elems_def st_SUB2 fill_Suc eval_nat_numeral)

lemma v4s_step_add: "v4s_step ADD4 srcA srcB = elems (\<lambda>a b. srcA a + srcB b) 4"
  by (rule ext) (auto simp add: v4s_step_def elems_def st_ADD4 fill_Suc eval_nat_numeral)

lemma v4s_step2_add: "v4s_step2 ADD4 srcA srcB = elems (\<lambda>a b. srcA a + srcB b) 8"
  by (rule ext) (auto simp add: v4s_step2_def elems_def st_ADD4 fill_Suc eval_nat_numeral)

lemma next_line_elems:
  "N \<le> sa \<Longrightarrow> N \<le> sb \<Longrightarrow> N \<le> sy \<Longrightarrow>
   next_line (u32_sub sa N) (u32_sub sb N) (u32_sub sy N) (elems g N s) = row_step g N sa sb sy s"
  by (cases s) (simp add: next_line_def elems_def row_step_def u32_sub_le)

lemma cp_elem_eq: "cp_elem src = celems src 1"
  by (rule ext) (auto simp add: cp_elem_def celems_def fill_Suc)

lemma cp_w16_eq: "cp_w16 src = celems src 2"
  by (rule ext) (auto simp add: cp_w16_def celems_def st_ld_w16 fill_Suc eval_nat_numeral)

lemma cp_w8_eq: "cp_w8 src = celems src 4"
  by (rule ext) (auto simp add: cp_w8_def celems_def st_ld_w8 fill_Suc eval_nat_numeral)

lemma cp_next_celems:
  "N \<le> sa \<Longrightarrow> N \<le> sy \<Longrightarrow>
   cp_next (u32_sub sa N) (u32_sub sy N) (celems src N s) = crow_step src N sa sy s"
  by (cases s) (simp add: cp_next_def celems_def crow_step_def u32_sub_le)

lemma cp_next_last:
  "cp_next (x + 1) (y + 1) (cp_last src s) = cp_next x y (celems src 1 s)"
  by (cases s) (simp add: cp_next_def cp_last_def celems_def fill_Suc)

lemma nat_and_1: "(N::nat) AND 1 = N mod 2"
  by (simp add: and_one_eq)

lemma nat_and_3: "(N::nat) AND 3 = N mod 4"
  using take_bit_eq_mask [of 2 N] by (simp add: take_bit_eq_mod mask_eq_exp_minus_1)

lemma nat_and_exp: "(N::nat) AND 2 ^ k = 2 ^ k * (N div 2 ^ k mod 2)"
proof (cases "bit N k")
  case True
  have "N AND 2 ^ k = 2 ^ k"
    by (rule bit_eqI) (use True in \<open>auto simp add: bit_simps bit_exp_iff\<close>)
  moreover from True have "N div 2 ^ k mod 2 = 1"
    by (simp add: bit_iff_odd_drop_bit drop_bit_eq_div odd_iff_mod_2_eq_one)
  ultimately show ?thesis by simp
next
  case False
  then have "N AND 2 ^ k = 0" by (simp add: and_exp_eq_0_iff_not_bit)
  moreover from False have "N div 2 ^ k mod 2 = 0"
    by (simp add: bit_iff_odd_drop_bit drop_bit_eq_div)
  ultimately show ?thesis by simp
qed

lemma nat_and_2: "(N::nat) AND 2 = 2 * (N div 2 mod 2)"
  using nat_and_exp [of N 1] by simp

lemma nat_and_4: "(N::nat) AND 4 = 4 * (N div 4 mod 2)"
  using nat_and_exp [of N 2] by simp

lemma split2: "drop_bit 1 (N::nat) * 2 + (N AND 1) = N"
  by (simp add: nat_and_1 drop_bit_eq_div)

lemma split4: "drop_bit 2 (N::nat) * 4 + (N AND 2) + (N AND 1) = N"
proof -
  define q4 q2 r1 r0 where "q4 = N div 4" and "q2 = N div 2" and "r1 = N div 2 mod 2" and "r0 = N mod 2"
  have "q2 div 2 = q4" by (simp add: q2_def q4_def div_mult2_eq [symmetric])
  then have b: "q2 = 2 * q4 + r1" unfolding r1_def q2_def [symmetric] by (metis mult_div_mod_eq)
  have c: "N = 2 * q2 + r0" unfolding q2_def r0_def by simp
  from b c have "q4 * 4 + 2 * r1 + r0 = N" by simp
  then show ?thesis
    unfolding nat_and_1 nat_and_2 drop_bit_eq_div q4_def r1_def r0_def by simp
qed

lemma split4r: "drop_bit 2 (N::nat) * 4 + (N AND 3) = N"
  by (simp add: nat_and_3 drop_bit_eq_div)

lemma split8: "drop_bit 3 (N::nat) * 8 + (N AND 4) + (N AND 3) = N"
proof -
  define q8 q4 r1 r0 where "q8 = N div 8" and "q4 = N div 4" and "r1 = N div 4 mod 2" and "r0 = N mod 4"
  have "q4 div 2 = q8" by (simp add: q8_def q4_def div_mult2_eq [symmetric])
  then have b: "q4 = 2 * q8 + r1" unfolding r1_def q4_def [symmetric] by (metis mult_div_mod_eq)
  have c: "N = 4 * q4 + r0" unfolding q4_def r0_def by simp
  from b c have "q8 * 8 + 4 * r1 + r0 = N" by simp
  then show ?thesis
    unfolding nat_and_3 nat_and_4 drop_bit_eq_div q8_def r1_def r0_def by simp
qed

lemma and1_cases: "(N::nat) AND 1 = 0 \<or> N AND 1 = 1"
  unfolding nat_and_1 by arith
lemma and2_cases: "(N::nat) AND 2 = 0 \<or> N AND 2 = 2"
  unfolding nat_and_2 by arith
lemma and4_cases: "(N::nat) AND 4 = 0 \<or> N AND 4 = 4"
  unfolding nat_and_4 by arith

lemma seq_rows:
  "dst_of ((row_step g N sa sb sy ^^ M) (0, 0, 0, dst))
     = mat_fill (\<lambda>m n. g (m * sa + n) (m * sb + n)) M N sy dst"
  by (simp add: row_step_funpow dst_of_def mat_fill_def)

lemma rem1: "(N::nat) AND 1 \<noteq> 0 \<Longrightarrow> drop_bit 1 N * 2 + 1 = N"
  using split2 [of N] and1_cases [of N] by auto
lemma rem0: "\<not> (N::nat) AND 1 \<noteq> 0 \<Longrightarrow> drop_bit 1 N * 2 = N"
  using split2 [of N] by auto

lemma blk11: "(N::nat) AND 1 \<noteq> 0 \<Longrightarrow> N AND 2 \<noteq> 0 \<Longrightarrow> drop_bit 2 N * 4 + 2 + 1 = N"
  using split4 [of N] and1_cases [of N] and2_cases [of N] by auto
lemma blk10: "(N::nat) AND 1 \<noteq> 0 \<Longrightarrow> \<not> N AND 2 \<noteq> 0 \<Longrightarrow> drop_bit 2 N * 4 + 1 = N"
  using split4 [of N] and1_cases [of N] by auto
lemma blk01: "\<not> (N::nat) AND 1 \<noteq> 0 \<Longrightarrow> N AND 2 \<noteq> 0 \<Longrightarrow> drop_bit 2 N * 4 + 2 = N"
  using split4 [of N] and2_cases [of N] by auto
lemma blk00: "\<not> (N::nat) AND 1 \<noteq> 0 \<Longrightarrow> \<not> N AND 2 \<noteq> 0 \<Longrightarrow> drop_bit 2 N * 4 = N"
  using split4 [of N] by auto

lemma oct11: "(N::nat) AND 3 \<noteq> 0 \<Longrightarrow> N AND 4 \<noteq> 0 \<Longrightarrow> drop_bit 3 N * 8 + 4 + (N AND 3) * 1 = N"
  using split8 [of N] and4_cases [of N] by auto
lemma oct10: "(N::nat) AND 3 \<noteq> 0 \<Longrightarrow> \<not> N AND 4 \<noteq> 0 \<Longrightarrow> drop_bit 3 N * 8 + (N AND 3) * 1 = N"
  using split8 [of N] by auto
lemma oct01: "\<not> (N::nat) AND 3 \<noteq> 0 \<Longrightarrow> N AND 4 \<noteq> 0 \<Longrightarrow> drop_bit 3 N * 8 + 4 = N"
  using split8 [of N] and4_cases [of N] by auto
lemma oct00: "\<not> (N::nat) AND 3 \<noteq> 0 \<Longrightarrow> \<not> N AND 4 \<noteq> 0 \<Longrightarrow> drop_bit 3 N * 8 = N"
  using split8 [of N] by auto

lemmas bin_steps = elem_step_add elem_step_sub elem_step2_add elem_step2_sub
  v2s_step_add v2s_step_sub v2s_step2_add v2s_step2_sub v4s_step_add v4s_step2_add
  elems_funpow elems_elems mult_1 

lemma add_i32s_unroll_rows:
  assumes "N \<le> strideA" "N \<le> strideB" "N \<le> strideY"
  shows "plp_mat_add_stride_i32s_xpulpv2_unroll srcA srcB M N strideA strideB strideY dst
    = mat_fill (\<lambda>m n. srcA (m * strideA + n) + srcB (m * strideB + n)) M N strideY dst"
  unfolding plp_mat_add_stride_i32s_xpulpv2_unroll_def Let_def
  by (cases "N AND 1 \<noteq> 0")
     (simp_all only: bin_steps rem1 rem0 next_line_elems [OF assms] seq_rows if_True if_False simp_thms)

lemma add_i32s_plain_rows:
  assumes "N \<le> strideA" "N \<le> strideB" "N \<le> strideY"
  shows "plp_mat_add_stride_i32s_xpulpv2_plain srcA srcB M N strideA strideB strideY dst
    = mat_fill (\<lambda>m n. srcA (m * strideA + n) + srcB (m * strideB + n)) M N strideY dst"
  unfolding plp_mat_add_stride_i32s_xpulpv2_plain_def Let_def
  by (simp only: bin_steps mult_1_right next_line_elems [OF assms] seq_rows)

lemma sub_i16s_rv32im_unroll_rows:
  assumes "N \<le> strideA" "N \<le> strideB" "N \<le> strideY"
  shows "plp_mat_sub_stride_i16s_rv32im_unroll srcA srcB M N strideA strideB strideY dst
    = mat_fill (\<lambda>m n. srcA (m * strideA + n) - srcB (m * strideB + n)) M N strideY dst"
  unfolding plp_mat_sub_stride_i16s_rv32im_unroll_def Let_def
  by (cases "N AND 1 \<noteq> 0")
     (simp_all only: bin_steps rem1 rem0 next_line_elems [OF assms] seq_rows if_True if_False simp_thms)

lemma sub_i16s_rv32im_plain_rows:
  assumes "N \<le> strideA" "N \<le> strideB" "N \<le> strideY"
  shows "plp_mat_sub_stride_i16s_rv32im_plain srcA srcB M N strideA strideB strideY dst
    = mat_fill (\<lambda>m n. srcA (m * strideA + n) - srcB (m * strideB + n)) M N strideY dst"
  unfolding plp_mat_sub_stride_i16s_rv32im_plain_def Let_def
  by (simp only: bin_steps mult_1_right next_line_elems [OF assms] seq_rows)

lemma sub_i16s_xpulpv2_unroll_rows:
  assumes "N \<le> strideA" "N \<le> strideB" "N \<le> strideY"
  shows "plp_mat_sub_stride_i16s_xpulpv2_unroll srcA srcB M N strideA strideB strideY dst
    = mat_fill (\<lambda>m n. srcA (m * strideA + n) - srcB (m * strideB + n)) M N strideY dst"
  unfolding plp_mat_sub_stride_i16s_xpulpv2_unroll_def Let_def
  by (cases "N AND 1 \<noteq> 0"; cases "N AND 2 \<noteq> 0")
     (simp_all only: bin_steps blk11 blk10 blk01 blk00 next_line_elems [OF assms] seq_rows
        if_True if_False simp_thms)

lemma sub_i16s_xpulpv2_plain_rows:
  assumes "N \<le> strideA" "N \<le> strideB" "N \<le> strideY"
  shows "plp_mat_sub_stride_i16s_xpulpv2_plain srcA srcB M N strideA strideB strideY dst
    = mat_fill (\<lambda>m n. srcA (m * strideA + n) - srcB (m * strideB + n)) M N strideY dst"
  unfolding plp_mat_sub_stride_i16s_xpulpv2_plain_def Let_def
  by (cases "N AND 1 \<noteq> 0")
     (simp_all only: bin_steps rem1 rem0 next_line_elems [OF assms] seq_rows if_True if_False simp_thms)

lemma row_count_step:
  assumes "0 < nPE" "m < M"
  shows "row_count M nPE m = Suc (row_count M nPE (m + nPE))"
proof -
  define x where "x = M - 1 - m"
  from assms have e1: "M + nPE - 1 - m = x + nPE" by (simp add: x_def)
  have e2: "M + nPE - 1 - (m + nPE) = x" by (simp add: x_def)
  from assms(1) have "(x + nPE) div nPE = Suc (x div nPE)" by simp
  then show ?thesis unfolding row_count_def e1 e2 .
qed

lemma row_count_done: "0 < nPE \<Longrightarrow> \<not> m < M \<Longrightarrow> row_count M nPE m = 0"
  by (simp add: row_count_def)

lemma row_count_less: "0 < nPE \<Longrightarrow> (j < row_count M nPE m) = (m + j * nPE < M)"
proof (induction j arbitrary: m)
  case 0
  then show ?case by (cases "m < M") (simp_all add: row_count_step row_count_done)
next
  case (Suc j)
  show ?case
  proof (cases "m < M")
    case True
    with Suc show ?thesis by (simp add: row_count_step add.assoc add.commute add.left_commute)
  next
    case False
    with Suc.prems show ?thesis by (simp add: row_count_done)
  qed
qed

lemma for_rows_const:
  "0 < nPE \<Longrightarrow> for_rows M nPE (\<lambda>m. body) m s = Some ((body ^^ row_count M nPE m) s)"
proof (induction "M - m" arbitrary: m s rule: less_induct)
  case less
  show ?case
  proof (cases "m < M")
    case True
    with less.prems have "M - (m + nPE) < M - m" by simp
    from less.hyps [OF this less.prems]
    have "for_rows M nPE (\<lambda>m. body) (m + nPE) (body s)
        = Some ((body ^^ row_count M nPE (m + nPE)) (body s))" .
    moreover have "(body ^^ row_count M nPE m) s = (body ^^ row_count M nPE (m + nPE)) (body s)"
      using True less.prems by (simp only: row_count_step funpow_Suc_right o_apply)
    moreover have "for_rows M nPE (\<lambda>m. body) m s = for_rows M nPE (\<lambda>m. body) (m + nPE) (body s)"
      using True by (subst for_rows.simps) simp
    ultimately show ?thesis by simp
  next
    case False
    then have "for_rows M nPE (\<lambda>m. body) m s = Some s"
      by (subst for_rows.simps) simp
    with False less.prems show ?thesis
      by (simp add: row_count_done)
  qed
qed

lemma row_count_1: "row_count M 1 0 = M"
  by (simp add: row_count_def)

lemma mat_fill_pe: "mat_fill f M N sy mem = pe_fill f M N sy 1 0 mem"
  by (simp add: mat_fill_def pe_fill_def row_count_def)

lemma pe_fill_at:
  assumes "N \<le> sy" "0 < nPE" "m < M" "m mod nPE = core_id" "n < N"
  shows "pe_fill f M N sy nPE core_id mem (m * sy + n) = f m n"
proof -
  define j where "j = m div nPE"
  have m: "m = core_id + j * nPE"
    using assms(4) div_mult_mod_eq [of m nPE] by (simp add: j_def)
  with assms(2,3) have j: "j < row_count M nPE core_id" by (simp add: row_count_less)
  have "sy \<le> nPE * sy" using assms(2) by (cases nPE) simp_all
  with assms(1) have le: "N \<le> nPE * sy" by (rule le_trans)
  have ix: "m * sy + n = core_id * sy + j * (nPE * sy) + n"
    by (simp add: m algebra_simps)
  show ?thesis
    unfolding pe_fill_def ix using fill_rows_at [OF le j assms(5)] by (simp add: m)
qed

lemma pe_fill_other:
  assumes "0 < nPE" "core_id < nPE"
    and "\<And>m n. m < M \<Longrightarrow> m mod nPE = core_id \<Longrightarrow> n < N \<Longrightarrow> i \<noteq> m * sy + n"
  shows "pe_fill f M N sy nPE core_id mem i = mem i"
  unfolding pe_fill_def
proof (rule fill_rows_other)
  fix j n assume j: "j < row_count M nPE core_id" and n: "n < N"
  from j assms(1) have "core_id + j * nPE < M" by (simp add: row_count_less)
  moreover have "(core_id + j * nPE) mod nPE = core_id" using assms(2) by simp
  ultimately have "i \<noteq> (core_id + j * nPE) * sy + n" using n by (rule assms(3))
  then show "i \<noteq> core_id * sy + j * (nPE * sy) + n" by (simp add: algebra_simps)
qed

lemma par_rows:
  assumes "0 < nPE"
  shows "map_option (pe_return \<circ> dst_of)
      (for_rows M nPE (\<lambda>m. row_step (\<lambda>a b. opr (srcA a) (srcB b)) N (sa * nPE) (sb * nPE) (sy * nPE))
         core_id (sa * core_id, sb * core_id, sy * core_id, dst))
    = Some (pe_return (pe_fill (\<lambda>m n. opr (srcA (m * sa + n)) (srcB (m * sb + n))) M N sy nPE core_id dst))"
proof -
  have "(\<lambda>j n. opr (srcA (sa * core_id + j * (sa * nPE) + n)) (srcB (sb * core_id + j * (sb * nPE) + n)))
      = (\<lambda>j n. opr (srcA ((core_id + j * nPE) * sa + n)) (srcB ((core_id + j * nPE) * sb + n)))"
    by (simp add: algebra_simps)
  then show ?thesis
    by (simp add: for_rows_const [OF assms] row_step_funpow dst_of_def pe_fill_def mult.commute)
qed

lemma mult_le:
  assumes "N \<le> s" "0 < nPE"
  shows "N \<le> s * (nPE::nat)"
proof -
  have "s \<le> s * nPE" using assms(2) by (cases nPE) simp_all
  with assms(1) show ?thesis by (rule le_trans)
qed

lemma add_i16p_rows:
  assumes "0 < add_nPE args" "add_N args \<le> add_strideA args" "add_N args \<le> add_strideB args"
    "add_N args \<le> add_strideY args"
  shows "plp_mat_add_stride_i16p_xpulpv2 args core_id
    = Some (pe_return (pe_fill (\<lambda>m n. add_pSrcA args (m * add_strideA args + n)
                                    + add_pSrcB args (m * add_strideB args + n))
         (add_M args) (add_N args) (add_strideY args) (add_nPE args) core_id (add_pDst args)))"
proof -
  note nl = next_line_elems [OF mult_le [OF assms(2,1)] mult_le [OF assms(3,1)] mult_le [OF assms(4,1)]]
  show ?thesis
    unfolding plp_mat_add_stride_i16p_xpulpv2_def Let_def
    by (cases "add_N args AND 1 \<noteq> 0"; cases "add_N args AND 2 \<noteq> 0")
       (simp_all only: bin_steps blk11 blk10 blk01 blk00 nl par_rows [OF assms(1)]
          if_True if_False simp_thms)
qed

lemma add_i8p_rows:
  assumes "0 < add_nPE args" "add_N args \<le> add_strideA args" "add_N args \<le> add_strideB args"
    "add_N args \<le> add_strideY args"
  shows "plp_mat_add_stride_i8p_xpulpv2 args core_id
    = Some (pe_return (pe_fill (\<lambda>m n. add_pSrcA args (m * add_strideA args + n)
                                    + add_pSrcB args (m * add_strideB args + n))
         (add_M args) (add_N args) (add_strideY args) (add_nPE args) core_id (add_pDst args)))"
proof -
  note nl = next_line_elems [OF mult_le [OF assms(2,1)] mult_le [OF assms(3,1)] mult_le [OF assms(4,1)]]
  show ?thesis
    unfolding plp_mat_add_stride_i8p_xpulpv2_def Let_def
    by (cases "add_N args AND 3 \<noteq> 0"; cases "add_N args AND 4 \<noteq> 0")
       (simp_all only: bin_steps oct11 oct10 oct01 oct00 nl par_rows [OF assms(1)]
          if_True if_False simp_thms)
qed

lemma fill_rows_N0 [simp]: "fill_rows f d sy 0 k mem = mem"
  by (induction k) simp_all

lemma cseq_rows:
  "cdst_of ((crow_step src N sa sy ^^ M) (0, 0, dst)) = mat_fill (\<lambda>m n. src (m * sa + n)) M N sy dst"
  by (simp add: crow_step_funpow cdst_of_def mat_fill_def)

lemma cpar_rows:
  assumes "0 < nPE"
  shows "map_option (pe_return \<circ> cdst_of)
      (for_rows M nPE (\<lambda>m. crow_step src N (sa * nPE) (sy * nPE)) core_id (sa * core_id, sy * core_id, dst))
    = Some (pe_return (pe_fill (\<lambda>m n. src (m * sa + n)) M N sy nPE core_id dst))"
proof -
  have "(\<lambda>j n. src (sa * core_id + j * (sa * nPE) + n)) = (\<lambda>j n. src ((core_id + j * nPE) * sa + n))"
    by (simp add: algebra_simps)
  then show ?thesis
    by (simp add: for_rows_const [OF assms] crow_step_funpow cdst_of_def pe_fill_def mult.commute)
qed

lemma nat_2_2: "2 + 2 = (4::nat)" by simp
lemma nat_4_4: "4 + 4 = (8::nat)" by simp

lemma quad1: "(N::nat) AND 3 \<noteq> 0 \<Longrightarrow> drop_bit 2 N * 4 + (N AND 3) * 1 = N"
  using split4r [of N] by simp
lemma quad0: "\<not> (N::nat) AND 3 \<noteq> 0 \<Longrightarrow> drop_bit 2 N * 4 = N"
  using split4r [of N] by simp

lemmas cp_steps = cp_elem_eq cp_w16_eq cp_w8_eq
  celems_funpow cp_next_last celems_celems one_add_one nat_2_2 nat_4_4

lemma copy_i32s_unroll_rows:
  assumes "N \<le> strideSrc" "N \<le> strideDst"
  shows "plp_mat_copy_stride_i32s_rv32im_unroll src M N strideSrc strideDst dst
    = mat_fill (\<lambda>m n. src (m * strideSrc + n)) M N strideDst dst"
  unfolding plp_mat_copy_stride_i32s_rv32im_unroll_def Let_def
  by (cases "N AND 1 \<noteq> 0")
     (simp_all only: cp_steps rem1 rem0 cp_next_celems [OF assms] cseq_rows if_True if_False simp_thms)

lemma fold_upd_fill: "fold (\<lambda>n mem. mem(d + n := f n)) [0..<N] mem = fill f d N mem"
proof (induction N)
  case 0
  show ?case by simp
next
  case (Suc N)
  have "fold (\<lambda>n mem. mem(d + n := f n)) [0..<Suc N] mem
      = (fold (\<lambda>n mem. mem(d + n := f n)) [0..<N] mem)(d + N := f N)"
    by (simp only: upt_Suc_append [OF le0] fold_append fold_simps o_apply)
  then show ?case by (simp only: Suc fill_Suc)
qed

lemma fold_fill_rows:
  "fold (\<lambda>m mem. fill (f m) (d + m * sy) N mem) [0..<M] mem = fill_rows f d sy N M mem"
  by (induction M) simp_all


lemma ref_mat_op_rows:
  "ref_mat_op opr srcA srcB M N strideA strideB strideY dst
    = mat_fill (\<lambda>m n. opr (srcA (m * strideA + n)) (srcB (m * strideB + n))) M N strideY dst"
  using fold_fill_rows [of "\<lambda>m n. opr (srcA (m * strideA + n)) (srcB (m * strideB + n))" 0]
  by (simp add: ref_mat_op_def mat_fill_def fold_upd_fill)

lemma copy_i32s_plain_rows:
  "plp_mat_copy_stride_i32s_rv32im_plain src M N strideSrc strideDst dst
    = mat_fill (\<lambda>m n. src (m * strideSrc + n)) M N strideDst dst"
  using fold_fill_rows [of "\<lambda>m n. src (m * strideSrc + n)" 0]
  by (simp add: plp_mat_copy_stride_i32s_rv32im_plain_def mat_fill_def fold_upd_fill)

lemma copy_i16s_rv32im_plain_rows:
  assumes "N \<le> strideSrc" "N \<le> strideDst"
  shows "plp_mat_copy_stride_i16s_rv32im_plain src M N strideSrc strideDst dst
    = mat_fill (\<lambda>m n. src (m * strideSrc + n)) M N strideDst dst"
  unfolding plp_mat_copy_stride_i16s_rv32im_plain_def Let_def
  by (cases "N AND 1 \<noteq> 0")
     (simp_all only: cp_steps rem1 rem0 cp_next_celems [OF assms] cseq_rows if_True if_False simp_thms)

lemma copy_i16s_xpulpv2_plain_rows:
  assumes "N \<le> strideSrc" "N \<le> strideDst"
  shows "plp_mat_copy_stride_i16s_xpulpv2_plain src M N strideSrc strideDst dst
    = mat_fill (\<lambda>m n. src (m * strideSrc + n)) M N strideDst dst"
  unfolding plp_mat_copy_stride_i16s_xpulpv2_plain_def Let_def
  by (cases "N AND 1 \<noteq> 0")
     (simp_all only: cp_steps rem1 rem0 cp_next_celems [OF assms] cseq_rows if_True if_False simp_thms)

lemma copy_i16s_xpulpv2_unroll_rows:
  assumes "N \<le> strideSrc" "N \<le> strideDst"
  shows "plp_mat_copy_stride_i16s_xpulpv2_unroll src M N strideSrc strideDst dst
    = mat_fill (\<lambda>m n. src (m * strideSrc + n)) M N strideDst dst"
  unfolding plp_mat_copy_stride_i16s_xpulpv2_unroll_def Let_def
  by (cases "N AND 1 \<noteq> 0"; cases "N AND 2 \<noteq> 0")
     (simp_all only: cp_steps blk11 blk10 blk01 blk00 cp_next_celems [OF assms] cseq_rows
        if_True if_False simp_thms)

lemma copy_i8s_rv32im_plain_rows:
  assumes "N \<le> strideSrc" "N \<le> strideDst"
  shows "plp_mat_copy_stride_i8s_rv32im_plain src M N strideSrc strideDst dst
    = mat_fill (\<lambda>m n. src (m * strideSrc + n)) M N strideDst dst"
  unfolding plp_mat_copy_stride_i8s_rv32im_plain_def Let_def
  by (cases "N AND 3 \<noteq> 0")
     (simp_all only: cp_steps quad1 quad0 cp_next_celems [OF assms] cseq_rows if_True if_False simp_thms)

lemma copy_i16p_rows:
  assumes "0 < cpy_nPE args" "cpy_N args \<le> cpy_strideSrc args" "cpy_N args \<le> cpy_strideDst args"
  shows "plp_mat_copy_stride_i16p_xpulpv2 args core_id
    = Some (pe_return (pe_fill (\<lambda>m n. cpy_pSrc args (m * cpy_strideSrc args + n))
         (cpy_M args) (cpy_N args) (cpy_strideDst args) (cpy_nPE args) core_id (cpy_pDst args)))"
proof -
  note nl = cp_next_celems [OF mult_le [OF assms(2,1)] mult_le [OF assms(3,1)]]
  show ?thesis
    unfolding plp_mat_copy_stride_i16p_xpulpv2_def Let_def mult.commute [of "cpy_nPE args"]
    by (cases "cpy_N args AND 1 \<noteq> 0"; cases "cpy_N args AND 2 \<noteq> 0")
       (simp_all only: cp_steps blk11 blk10 blk01 blk00 nl cpar_rows [OF assms(1)]
          if_True if_False simp_thms)
qed

lemma i8p_001: "drop_bit 3 (N::nat) = 0 \<Longrightarrow> N AND 3 = 0 \<Longrightarrow> N AND 4 \<noteq> 0 \<Longrightarrow> celems src 4 = celems src N"
  using split8 [of N] and4_cases [of N] by auto
lemma i8p_000: "drop_bit 3 (N::nat) = 0 \<Longrightarrow> N AND 3 = 0 \<Longrightarrow> N AND 4 = 0 \<Longrightarrow> N = 0"
  using split8 [of N] by auto
lemma i8p_010: "drop_bit 3 (N::nat) = 0 \<Longrightarrow> N AND 3 \<noteq> 0 \<Longrightarrow> N AND 4 = 0 \<Longrightarrow> (N AND 3) * 1 = N"
  using split8 [of N] by auto
lemma i8p_011: "drop_bit 3 (N::nat) = 0 \<Longrightarrow> N AND 3 \<noteq> 0 \<Longrightarrow> N AND 4 \<noteq> 0 \<Longrightarrow> 4 + (N AND 3) * 1 = N"
  using split8 [of N] and4_cases [of N] by auto
lemma i8p_100: "N AND 3 = 0 \<Longrightarrow> N AND 4 = 0 \<Longrightarrow> drop_bit 3 (N::nat) * 8 = N"
  using split8 [of N] by auto
lemma i8p_101: "N AND 3 = 0 \<Longrightarrow> N AND 4 \<noteq> 0 \<Longrightarrow> drop_bit 3 (N::nat) * 8 + 4 = N"
  using split8 [of N] and4_cases [of N] by auto
lemma i8p_110: "N AND 3 \<noteq> 0 \<Longrightarrow> N AND 4 = 0 \<Longrightarrow> drop_bit 3 (N::nat) * 8 + (N AND 3) * 1 = N"
  using split8 [of N] by auto
lemma i8p_111: "N AND 3 \<noteq> 0 \<Longrightarrow> N AND 4 \<noteq> 0 \<Longrightarrow> drop_bit 3 (N::nat) * 8 + 4 + (N AND 3) * 1 = N"
  using split8 [of N] and4_cases [of N] by auto

lemma pe_fill_N0: "pe_fill f M 0 sy nPE core_id mem = mem"
  by (simp add: pe_fill_def)

lemma copy_i8p_rows:
  assumes "0 < cpy_nPE args" "cpy_N args \<le> cpy_strideSrc args" "cpy_N args \<le> cpy_strideDst args"
  shows "plp_mat_copy_stride_i8p_xpulpv2 args core_id
    = Some (pe_return (pe_fill (\<lambda>m n. cpy_pSrc args (m * cpy_strideSrc args + n))
         (cpy_M args) (cpy_N args) (cpy_strideDst args) (cpy_nPE args) core_id (cpy_pDst args)))"
proof -
  note nl = cp_next_celems [OF mult_le [OF assms(2,1)] mult_le [OF assms(3,1)]]
  have z: "cpy_N args = 0 \<Longrightarrow> pe_fill (\<lambda>m n. cpy_pSrc args (m * cpy_strideSrc args + n))
         (cpy_M args) (cpy_N args) (cpy_strideDst args) (cpy_nPE args) core_id (cpy_pDst args) = cpy_pDst args"
    by (simp add: pe_fill_N0)
  show ?thesis
  proof (cases "drop_bit 3 (cpy_N args) = 0 \<and> cpy_N args AND 3 = 0 \<and> cpy_N args AND 4 = 0")
    case True
    then have "cpy_N args = 0" by (simp add: i8p_000)
    from z [OF this] True show ?thesis
      unfolding plp_mat_copy_stride_i8p_xpulpv2_def Let_def
      by (simp add: cdst_of_def)
  next
    case False
    then show ?thesis
      unfolding plp_mat_copy_stride_i8p_xpulpv2_def Let_def
      by (cases "drop_bit 3 (cpy_N args) = 0"; cases "cpy_N args AND 3 = 0"; cases "cpy_N args AND 4 = 0")
         (simp_all only: cp_steps i8p_001 i8p_010 i8p_011 i8p_100 i8p_101 i8p_110 i8p_111
            nl cpar_rows [OF assms(1)] if_True if_False simp_thms)
  qed
qed

lemma cp2_elem_eq: "cp2_elem src = celems2 src 1"
  by (rule ext) (auto simp add: cp2_elem_def celems2_def fill_Suc)


lemma cp2_w8_eq: "cp2_w8 src = celems2 src 4"
  by (rule ext) (auto simp add: cp2_w8_def celems2_def st_ld_w8 fill_Suc eval_nat_numeral)

lemma celems2_0 [simp]: "celems2 src 0 s = s"
  by (cases s) (simp add: celems2_def)

lemma fill_swap:
  "d1 + k \<le> d2 \<Longrightarrow> fill f d1 k (fill g d2 j mem) = fill g d2 j (fill f d1 k mem)"
  by (auto simp add: fill_def fun_eq_iff)

lemma celems2_celems2:
  assumes "d1 + (k + j) \<le> d2"
  shows "celems2 src j (celems2 src k (a1, a2, d1, d2, mem)) = celems2 src (k + j) (a1, a2, d1, d2, mem)"
proof -
  let ?f1 = "\<lambda>i. src (a1 + i)" and ?f2 = "\<lambda>i. src (a2 + i)"
  have "fill (\<lambda>i. src (a2 + k + i)) (d2 + k) j (fill (\<lambda>i. src (a1 + k + i)) (d1 + k) j
          (fill ?f2 d2 k (fill ?f1 d1 k mem)))
      = fill (\<lambda>i. src (a2 + k + i)) (d2 + k) j (fill ?f2 d2 k (fill (\<lambda>i. src (a1 + k + i)) (d1 + k) j
          (fill ?f1 d1 k mem)))"
    using assms by (subst fill_swap) simp_all
  also have "\<dots> = fill ?f2 d2 (k + j) (fill ?f1 d1 (k + j) mem)"
    using fill_fill [of ?f1 k d1 j mem] fill_fill [of ?f2 k d2 j]
    by (simp add: add.assoc)
  finally show ?thesis by (simp add: celems2_def add.assoc)
qed

lemma celems2_funpow:
  "d1 + n * c \<le> d2 \<Longrightarrow> (celems2 src c ^^ n) (a1, a2, d1, d2, mem) = celems2 src (n * c) (a1, a2, d1, d2, mem)"
proof (induction n)
  case 0 show ?case by simp
next
  case (Suc n)
  then have "(celems2 src c ^^ n) (a1, a2, d1, d2, mem) = celems2 src (n * c) (a1, a2, d1, d2, mem)"
    by simp
  moreover have "celems2 src c (celems2 src (n * c) (a1, a2, d1, d2, mem))
      = celems2 src (n * c + c) (a1, a2, d1, d2, mem)"
    using Suc.prems by (intro celems2_celems2) (simp add: add.commute)
  ultimately show ?case by (simp add: add.commute)
qed

lemma cp2_next_celems2:
  assumes "N \<le> sa" "N \<le> sy"
  shows "cp2_next (u32_sub (2 * sa) N) (u32_sub (2 * sy) N) (celems2 src N (pair_of sa sy t))
     = pair_of sa sy (crow_step src N sa sy (crow_step src N sa sy t))"
proof -
  obtain a d mem where t: "t = (a, d, mem)" by (cases t)
  from assms have "N \<le> 2 * sa" "N \<le> 2 * sy" by simp_all
  with assms show ?thesis
    by (simp add: t pair_of_def celems2_def cp2_next_def crow_step_def u32_sub_le)
qed


lemma cdst_celems: "cdst_of (celems src N t) = cdst_of (crow_step src N sa sy t)"
  by (cases t) (simp add: celems_def cdst_of_def crow_step_def)

lemma row1_pair [simp]: "row1_of (pair_of sa sy t) = t"
  by (cases t) (simp add: row1_of_def pair_of_def)

lemma cdst2_pair [simp]: "cdst2_of (pair_of sa sy t) = cdst_of t"
  by (cases t) (simp add: cdst2_of_def pair_of_def cdst_of_def)

lemma pair_funpow:
  assumes "\<And>t. body (pair_of sa sy t) = pair_of sa sy (crow_step src N sa sy (crow_step src N sa sy t))"
  shows "(body ^^ k) (pair_of sa sy t) = pair_of sa sy ((crow_step src N sa sy ^^ (2 * k)) t)"
proof (induction k)
  case 0 show ?case by simp
next
  case (Suc k)
  then show ?case by (simp add: assms)
qed

lemma pair_init: "(0, 0 + sa, 0, 0 + sy, dst) = pair_of sa sy (0, 0, dst)"
  by (simp add: pair_of_def)

lemma celems2_pair_funpow:
  "n * c \<le> sy \<Longrightarrow> (celems2 src c ^^ n) (pair_of sa sy t) = celems2 src (n * c) (pair_of sa sy t)"
  by (cases t) (simp add: pair_of_def celems2_funpow)

lemma celems2_pair_celems2:
  "k + j \<le> sy \<Longrightarrow> celems2 src j (celems2 src k (pair_of sa sy t)) = celems2 src (k + j) (pair_of sa sy t)"
  by (cases t) (simp add: pair_of_def celems2_celems2)



lemma pair_funpow2:
  "k + n * c \<le> sy \<Longrightarrow>
   (celems2 src c ^^ n) (celems2 src k (pair_of sa sy t)) = celems2 src (k + n * c) (pair_of sa sy t)"
proof (induction n)
  case 0 show ?case by simp
next
  case (Suc n)
  then have "(celems2 src c ^^ n) (celems2 src k (pair_of sa sy t)) = celems2 src (k + n * c) (pair_of sa sy t)"
    by simp
  moreover have "celems2 src c (celems2 src (k + n * c) (pair_of sa sy t))
      = celems2 src (k + n * c + c) (pair_of sa sy t)"
    using Suc.prems by (intro celems2_pair_celems2) (simp add: add.commute add.left_commute)
  ultimately show ?case by (simp add: add.commute add.left_commute)
qed



lemma pair_row_w8:
  assumes "N \<le> sy"
  shows "(cp2_elem src ^^ (N AND 3)) ((cp2_w8 src ^^ drop_bit 2 N) (pair_of sa sy t))
     = celems2 src N (pair_of sa sy t)"
proof -
  have n: "drop_bit 2 N * 4 + (N AND 3) * 1 = N" using split4r [of N] by simp
  with assms have a: "drop_bit 2 N * 4 \<le> sy" and b: "drop_bit 2 N * 4 + (N AND 3) * 1 \<le> sy" by simp_all
  show ?thesis
    by (simp only: cp2_w8_eq cp2_elem_eq celems2_pair_funpow [OF a] pair_funpow2 [OF b] n)
qed

lemma pair_row_w8_0:
  assumes "N \<le> sy" "\<not> N AND 3 \<noteq> 0"
  shows "(cp2_w8 src ^^ drop_bit 2 N) (pair_of sa sy t) = celems2 src N (pair_of sa sy t)"
proof -
  have n: "drop_bit 2 N * 4 = N" using assms(2) by (rule quad0)
  with assms(1) have "drop_bit 2 N * 4 \<le> sy" by simp
  then show ?thesis by (simp only: cp2_w8_eq celems2_pair_funpow n)
qed

lemma row_w8: "(cp_elem src ^^ (N AND 3)) ((cp_w8 src ^^ drop_bit 2 N) t) = celems src N t"
proof -
  have n: "drop_bit 2 N * 4 + (N AND 3) * 1 = N" using split4r [of N] by simp
  show ?thesis by (simp only: cp_steps n)
qed

lemma row_w8_0: "\<not> N AND 3 \<noteq> 0 \<Longrightarrow> (cp_w8 src ^^ drop_bit 2 N) t = celems src N t"
  by (simp only: cp_steps quad0 simp_thms)

lemma m_odd: "(M::nat) AND 1 \<noteq> 0 \<Longrightarrow> Suc (2 * drop_bit 1 M) = M"
  using rem1 [of M] by (simp add: mult.commute)
lemma m_even: "\<not> (M::nat) AND 1 \<noteq> 0 \<Longrightarrow> 2 * drop_bit 1 M = M"
  using rem0 [of M] by (simp add: mult.commute)

lemma crow_Suc: "crow_step src N sa sy ((crow_step src N sa sy ^^ k) t) = (crow_step src N sa sy ^^ Suc k) t"
  by simp

lemma copy_i8s_rv32im_unroll_rows:
  assumes "N \<le> strideSrc" "N \<le> strideDst"
  shows "plp_mat_copy_stride_i8s_rv32im_unroll src M N strideSrc strideDst dst
    = mat_fill (\<lambda>m n. src (m * strideSrc + n)) M N strideDst dst"
proof -
  let ?crow = "crow_step src N strideSrc strideDst"
  let ?po = "pair_of strideSrc strideDst"
  let ?off_s = "u32_sub (2 * strideSrc) N" and ?off_d = "u32_sub (2 * strideDst) N"
  have body1: "(\<lambda>s. cp2_next ?off_s ?off_d ((cp2_elem src ^^ (N AND 3)) ((cp2_w8 src ^^ drop_bit 2 N) s))) (?po t)
      = ?po (?crow (?crow t))" for t
    by (simp only: pair_row_w8 [OF assms(2)] cp2_next_celems2 [OF assms])
  have body0: "(\<lambda>s. cp2_next ?off_s ?off_d ((cp2_w8 src ^^ drop_bit 2 N) s)) (?po t)
      = ?po (?crow (?crow t))" if "\<not> N AND 3 \<noteq> 0" for t
    by (simp only: pair_row_w8_0 [OF assms(2) that] cp2_next_celems2 [OF assms])
  show ?thesis
  proof (cases "N AND 3 \<noteq> 0")
    case n: True
    show ?thesis
    proof (cases "M AND 1 \<noteq> 0")
      case True
      show ?thesis
        unfolding plp_mat_copy_stride_i8s_rv32im_unroll_def Let_def
        by (simp only: n True if_True if_False simp_thms pair_init pair_funpow [of _ strideSrc strideDst src N, OF body1]
              row1_pair row_w8 cdst_celems [of src N _ strideSrc strideDst] crow_Suc m_odd [OF True] cseq_rows)
    next
      case False
      show ?thesis
        unfolding plp_mat_copy_stride_i8s_rv32im_unroll_def Let_def
        by (simp only: n False if_True if_False simp_thms pair_init pair_funpow [of _ strideSrc strideDst src N, OF body1]
              cdst2_pair m_even [OF False] cseq_rows)
    qed
  next
    case n: False
    show ?thesis
    proof (cases "M AND 1 \<noteq> 0")
      case True
      show ?thesis
        unfolding plp_mat_copy_stride_i8s_rv32im_unroll_def Let_def
        by (simp only: n True if_True if_False simp_thms pair_init
              pair_funpow [of _ strideSrc strideDst src N, OF body0 [OF n]]
              row1_pair row_w8_0 [OF n] cdst_celems [of src N _ strideSrc strideDst] crow_Suc m_odd [OF True] cseq_rows)
    next
      case False
      show ?thesis
        unfolding plp_mat_copy_stride_i8s_rv32im_unroll_def Let_def
        by (simp only: n False if_True if_False simp_thms pair_init
              pair_funpow [of _ strideSrc strideDst src N, OF body0 [OF n]]
              cdst2_pair m_even [OF False] cseq_rows)
    qed
  qed
qed




lemma dot_fold:
  "fold (\<lambda>n sum. c_add sum (mul_i16 (srcA (a + n)) (srcB (b + n)))) [0..<N] s0
     = s0 + (\<Sum>n<N. mul_i16 (srcA (a + n)) (srcB (b + n)))"
  by (induction N) (simp_all add: c_add_eq add.assoc)

lemma pe_rows_step:
  assumes "0 < nPE" "m < M"
  shows "pe_rows M nPE m = m # pe_rows M nPE (m + nPE)"
proof -
  have "[0..<Suc (row_count M nPE (m + nPE))] = 0 # map Suc [0..<row_count M nPE (m + nPE)]"
    by (simp add: upt_conv_Cons map_Suc_upt del: upt_Suc)
  then show ?thesis
    unfolding pe_rows_def row_count_step [OF assms]
    by (simp add: comp_def add.assoc add.commute add.left_commute del: upt_Suc)
qed

lemma pe_rows_done: "0 < nPE \<Longrightarrow> \<not> m < M \<Longrightarrow> pe_rows M nPE m = []"
  by (simp add: pe_rows_def row_count_done)

lemma for_rows_fold:
  "0 < nPE \<Longrightarrow> for_rows M nPE body m s = Some (fold body (pe_rows M nPE m) s)"
proof (induction "M - m" arbitrary: m s rule: less_induct)
  case less
  show ?case
  proof (cases "m < M")
    case True
    with less.prems have "M - (m + nPE) < M - m" by simp
    from less.hyps [OF this less.prems]
    have "for_rows M nPE body (m + nPE) (body m s) = Some (fold body (pe_rows M nPE (m + nPE)) (body m s))" .
    moreover have "for_rows M nPE body m s = for_rows M nPE body (m + nPE) (body m s)"
      using True by (subst for_rows.simps) simp
    ultimately show ?thesis by (simp add: pe_rows_step [OF less.prems True])
  next
    case False
    then have "for_rows M nPE body m s = Some s"
      by (subst for_rows.simps) simp
    with False less.prems show ?thesis by (simp add: pe_rows_done)
  qed
qed

lemma rows_visited_eq: "0 < nPE \<Longrightarrow> rows_visited M nPE core_id = Some (pe_rows M nPE core_id)"
proof -
  assume h: "0 < nPE"
  have "fold (\<lambda>m ms. ms @ [m]) xs acc = acc @ xs" for xs acc :: "nat list"
    by (induction xs arbitrary: acc) simp_all
  then show ?thesis by (simp add: rows_visited_def for_rows_fold [OF h])
qed

lemma for_rows_visited:
  "0 < nPE \<Longrightarrow> for_rows M nPE body core_id s = map_option (\<lambda>ms. fold body ms s) (rows_visited M nPE core_id)"
  by (simp add: rows_visited_eq for_rows_fold)

lemma pe_rows_set: "0 < nPE \<Longrightarrow> core_id < nPE \<Longrightarrow> set (pe_rows M nPE core_id) = {m. m < M \<and> m mod nPE = core_id}"
proof (intro set_eqI iffI)
  fix m assume h: "0 < nPE" "core_id < nPE" and "m \<in> set (pe_rows M nPE core_id)"
  then obtain j where "j < row_count M nPE core_id" "m = core_id + j * nPE"
    by (auto simp add: pe_rows_def)
  with h show "m \<in> {m. m < M \<and> m mod nPE = core_id}" by (simp add: row_count_less)
next
  fix m assume h: "0 < nPE" "core_id < nPE" and "m \<in> {m. m < M \<and> m mod nPE = core_id}"
  then have m: "m < M" "m mod nPE = core_id" by simp_all
  then have e: "m = core_id + (m div nPE) * nPE" using div_mult_mod_eq [of m nPE] by simp
  with m h have "m div nPE < row_count M nPE core_id" by (simp add: row_count_less)
  with e show "m \<in> set (pe_rows M nPE core_id)" unfolding pe_rows_def by (metis (no_types, lifting) add.left_neutral atLeastLessThan_iff image_eqI less_eq_nat.simps(1) list.set_map set_upt)
qed

lemma pe_rows_sorted: "0 < nPE \<Longrightarrow> sorted (pe_rows M nPE core_id) \<and> distinct (pe_rows M nPE core_id)"
  unfolding pe_rows_def
  by (auto simp add: sorted_map distinct_map inj_on_def intro!: sorted_wrt_mono_rel [of _ "(<)"] sorted_wrt_upt
      simp del: upt_Suc) 

lemma pe_rows_filter:
  assumes "0 < nPE" "core_id < nPE"
  shows "pe_rows M nPE core_id = filter (\<lambda>m. m mod nPE = core_id) [0..<M]"
proof (rule sorted_distinct_set_unique)
  show "sorted (pe_rows M nPE core_id)" "distinct (pe_rows M nPE core_id)"
    using pe_rows_sorted [OF assms(1)] by simp_all
  show "sorted (filter (\<lambda>m. m mod nPE = core_id) [0..<M])" by (simp add: sorted_wrt_filter)
  show "distinct (filter (\<lambda>m. m mod nPE = core_id) [0..<M])" by simp
  show "set (pe_rows M nPE core_id) = set (filter (\<lambda>m. m mod nPE = core_id) [0..<M])"
    by (auto simp add: pe_rows_set [OF assms])
qed

lemma filter_split_mset:
  "(\<And>x. \<not> (P x \<and> Q x)) \<Longrightarrow> mset (filter P xs) + mset (filter Q xs) = mset (filter (\<lambda>x. P x \<or> Q x) xs)"
  by (induction xs) auto

lemma concat_filter_mset:
  "mset (concat (map (\<lambda>p. filter (\<lambda>x. f x = p) xs) [0..<k])) = mset (filter (\<lambda>x. f x < (k::nat)) xs)"
proof (induction k)
  case 0 show ?case by simp
next
  case (Suc k)
  have "(\<lambda>x. f x < k \<or> f x = k) = (\<lambda>x. f x < Suc k)" by auto
  with filter_split_mset [of "\<lambda>x. f x < k" "\<lambda>x. f x = k" xs] Suc show ?case by simp
qed

lemma all_rows_visited_mset:
  assumes "0 < nPE"
  shows "mset (all_rows_visited M nPE) = mset [0..<M]"
proof -
  have "map (\<lambda>core_id. case rows_visited M nPE core_id of Some ms \<Rightarrow> ms | None \<Rightarrow> []) [0..<nPE]
      = map (\<lambda>p. filter (\<lambda>m. m mod nPE = p) [0..<M]) [0..<nPE]"
    by (rule map_cong) (simp_all add: rows_visited_eq [OF assms] pe_rows_filter [OF assms])
  then have e: "all_rows_visited M nPE = concat (map (\<lambda>p. filter (\<lambda>m. m mod nPE = p) [0..<M]) [0..<nPE])"
    unfolding all_rows_visited_def by (rule arg_cong)
  have f: "filter (\<lambda>m. m mod nPE < nPE) [0..<M] = [0..<M]" using assms by simp
  show ?thesis by (simp only: e concat_filter_mset f)
qed

lemma fold_pe_rows_fill:
  "fold (\<lambda>m mem. fill (f m) (m * sy) N mem) (map (\<lambda>j. c + j * nPE) [0..<k]) mem
     = fill_rows (\<lambda>j. f (c + j * nPE)) (c * sy) (nPE * sy) N k mem"
  by (induction k) (simp_all add: algebra_simps)

lemma mult_trans_rows:
  assumes "0 < mm_nPE args"
  shows "plp_mat_mult_trans_i16vp_xpulpv2 args core_id
    = Some (rt_team_barrier (pe_return (pe_fill (dot_i16 (mm_pSrcA args) (mm_pSrcB args) (mm_N args))
         (mm_M args) (mm_O args) (mm_O args) (mm_nPE args) core_id (mm_pDstC args))))"
proof -
  let ?A = "mm_pSrcA args" and ?B = "mm_pSrcB args" and ?N = "mm_N args" and ?O = "mm_O args"
  have row: "fold (\<lambda>k dstC. let sum = fold (\<lambda>n sum. c_add sum (mul_i16 (?A (m * ?N + n)) (?B (k * ?N + n)))) [0..<?N] 0
               in dstC(m * ?O + k := sum)) [0..<?O]
      = fill (dot_i16 ?A ?B ?N m) (m * ?O) ?O" for m
    using fold_upd_fill [of "m * ?O" "dot_i16 ?A ?B ?N m" ?O]
    by (simp add: dot_fold dot_i16_def fun_eq_iff)
  show ?thesis
    unfolding plp_mat_mult_trans_i16vp_xpulpv2_def Let_def
    by (simp only: row [unfolded Let_def] for_rows_fold [OF assms] pe_rows_def fold_pe_rows_fill
          pe_fill_def option.map comp_def)
qed

lemma view_unique:
  assumes "n < sy" "n' < sy" "m * sy + n = m' * sy + n'"
  shows "m = m' \<and> n = (n'::nat)"
proof -
  from assms(1) have "(m * sy + n) div sy = m" "(m * sy + n) mod sy = n" by simp_all
  moreover from assms(2) have "(m' * sy + n') div sy = m'" "(m' * sy + n') mod sy = n'" by simp_all
  ultimately show ?thesis using assms(3) by simp
qed

lemma mat_fill_at:
  assumes "N \<le> sy" "m < M" "n < N"
  shows "mat_fill f M N sy mem (m * sy + n) = f m n"
  unfolding mat_fill_pe using assms by (intro pe_fill_at) simp_all

lemma mat_fill_other:
  assumes "\<And>m n. m < M \<Longrightarrow> n < N \<Longrightarrow> i \<noteq> m * sy + n"
  shows "mat_fill f M N sy mem i = mem i"
  unfolding mat_fill_pe using assms by (intro pe_fill_other) simp_all

lemma cores_fill_other:
  assumes "0 < nPE" "k \<le> nPE"
    and "\<And>m n. m < M \<Longrightarrow> n < N \<Longrightarrow> i \<noteq> m * sy + n"
  shows "cores_fill f M N sy nPE k mem i = mem i"
  using assms(2)
proof (induction k)
  case 0 show ?case by simp
next
  case (Suc k)
  then have "cores_fill f M N sy nPE k mem i = mem i" by simp
  moreover have "pe_fill f M N sy nPE k (cores_fill f M N sy nPE k mem) i = cores_fill f M N sy nPE k mem i"
    using Suc.prems assms(1,3) by (intro pe_fill_other) simp_all
  ultimately show ?case by simp
qed

lemma cores_fill_at:
  assumes "N \<le> sy" "0 < nPE" "m < M" "n < N" "m mod nPE < k" "k \<le> nPE"
  shows "cores_fill f M N sy nPE k mem (m * sy + n) = f m n"
  using assms(5,6)
proof (induction k)
  case 0 then show ?case by simp
next
  case (Suc k)
  show ?case
  proof (cases "m mod nPE = k")
    case True
    with assms show ?thesis by (simp add: pe_fill_at)
  next
    case False
    with Suc.prems have lt: "m mod nPE < k" and le: "k \<le> nPE" and kn: "k < nPE" by simp_all
    have "pe_fill f M N sy nPE k (cores_fill f M N sy nPE k mem) (m * sy + n)
        = cores_fill f M N sy nPE k mem (m * sy + n)"
    proof (rule pe_fill_other [OF assms(2) kn])
      fix m' n' assume h: "m' < M" "m' mod nPE = k" "n' < N"
      show "m * sy + n \<noteq> m' * sy + n'"
      proof
        assume "m * sy + n = m' * sy + n'"
        with assms(1,4) h(3) have "m = m'" using view_unique [of n sy n' m m'] by simp
        with h(2) False show False by simp
      qed
    qed
    with Suc.IH [OF lt le] show ?thesis by simp
  qed
qed

lemma run_cores_fill:
  assumes "\<And>p d. p < nPE \<Longrightarrow> call p d = Some (pe_return (pe_fill f M N sy nPE p d))"
  shows "run_cores call nPE dst = Some (cores_fill f M N sy nPE nPE dst)"
proof -
  have "k \<le> nPE \<Longrightarrow>
      fold (\<lambda>core_id r. case r of None \<Rightarrow> None | Some d \<Rightarrow> map_option pe_dst (call core_id d)) [0..<k] (Some dst)
      = Some (cores_fill f M N sy nPE k dst)" for k
  proof (induction k)
    case 0 show ?case by simp
  next
    case (Suc k)
    then show ?case by (simp add: assms pe_return_def)
  qed
  then show ?thesis by (simp add: run_cores_def)
qed

lemma cores_fill_mat_fill:
  assumes "N \<le> sy" "0 < nPE"
  shows "cores_fill f M N sy nPE nPE mem = mat_fill f M N sy mem"
proof (rule ext)
  fix i
  show "cores_fill f M N sy nPE nPE mem i = mat_fill f M N sy mem i"
  proof (cases "\<exists>m n. m < M \<and> n < N \<and> i = m * sy + n")
    case True
    then obtain m n where "m < M" "n < N" "i = m * sy + n" by blast
    with assms show ?thesis by (simp add: cores_fill_at mat_fill_at)
  next
    case False
    then have "\<And>m n. m < M \<Longrightarrow> n < N \<Longrightarrow> i \<noteq> m * sy + n" by blast
    then show ?thesis using assms(2) by (simp add: cores_fill_other mat_fill_other)
  qed
qed


lemma add_i32s_unroll_other:
  assumes "N \<le> strideA" "N \<le> strideB" "N \<le> strideY"
    and "\<And>m n. m < M \<Longrightarrow> n < N \<Longrightarrow> i \<noteq> m * strideY + n"
  shows "plp_mat_add_stride_i32s_xpulpv2_unroll srcA srcB M N strideA strideB strideY dst i = dst i"
  by (simp only: add_i32s_unroll_rows [OF assms(1-3)] mat_fill_other [OF assms(4)])



lemma add_i32s_plain_other:
  assumes "N \<le> strideA" "N \<le> strideB" "N \<le> strideY"
    and "\<And>m n. m < M \<Longrightarrow> n < N \<Longrightarrow> i \<noteq> m * strideY + n"
  shows "plp_mat_add_stride_i32s_xpulpv2_plain srcA srcB M N strideA strideB strideY dst i = dst i"
  by (simp only: add_i32s_plain_rows [OF assms(1-3)] mat_fill_other [OF assms(4)])


lemma sub_i16s_xpulpv2_unroll_at:
  assumes "N \<le> strideA" "N \<le> strideB" "N \<le> strideY" "m < M" "n < N"
  shows "plp_mat_sub_stride_i16s_xpulpv2_unroll srcA srcB M N strideA strideB strideY dst (m * strideY + n)
    = srcA (m * strideA + n) - srcB (m * strideB + n)"
  by (simp only: sub_i16s_xpulpv2_unroll_rows [OF assms(1-3)] mat_fill_at [OF assms(3-5)])

lemma sub_i16s_xpulpv2_unroll_other:
  assumes "N \<le> strideA" "N \<le> strideB" "N \<le> strideY"
    and "\<And>m n. m < M \<Longrightarrow> n < N \<Longrightarrow> i \<noteq> m * strideY + n"
  shows "plp_mat_sub_stride_i16s_xpulpv2_unroll srcA srcB M N strideA strideB strideY dst i = dst i"
  by (simp only: sub_i16s_xpulpv2_unroll_rows [OF assms(1-3)] mat_fill_other [OF assms(4)])

lemma sub_i16s_xpulpv2_unroll_ref:
  assumes "N \<le> strideA" "N \<le> strideB" "N \<le> strideY"
  shows "plp_mat_sub_stride_i16s_xpulpv2_unroll srcA srcB M N strideA strideB strideY dst
    = ref_mat_op (-) srcA srcB M N strideA strideB strideY dst"
  by (simp only: sub_i16s_xpulpv2_unroll_rows [OF assms] ref_mat_op_rows)


lemma sub_i16s_xpulpv2_plain_other:
  assumes "N \<le> strideA" "N \<le> strideB" "N \<le> strideY"
    and "\<And>m n. m < M \<Longrightarrow> n < N \<Longrightarrow> i \<noteq> m * strideY + n"
  shows "plp_mat_sub_stride_i16s_xpulpv2_plain srcA srcB M N strideA strideB strideY dst i = dst i"
  by (simp only: sub_i16s_xpulpv2_plain_rows [OF assms(1-3)] mat_fill_other [OF assms(4)])



lemma sub_i16s_rv32im_unroll_other:
  assumes "N \<le> strideA" "N \<le> strideB" "N \<le> strideY"
    and "\<And>m n. m < M \<Longrightarrow> n < N \<Longrightarrow> i \<noteq> m * strideY + n"
  shows "plp_mat_sub_stride_i16s_rv32im_unroll srcA srcB M N strideA strideB strideY dst i = dst i"
  by (simp only: sub_i16s_rv32im_unroll_rows [OF assms(1-3)] mat_fill_other [OF assms(4)])



lemma sub_i16s_rv32im_plain_other:
  assumes "N \<le> strideA" "N \<le> strideB" "N \<le> strideY"
    and "\<And>m n. m < M \<Longrightarrow> n < N \<Longrightarrow> i \<noteq> m * strideY + n"
  shows "plp_mat_sub_stride_i16s_rv32im_plain srcA srcB M N strideA strideB strideY dst i = dst i"
  by (simp only: sub_i16s_rv32im_plain_rows [OF assms(1-3)] mat_fill_other [OF assms(4)])



lemma copy_i32s_unroll_other:
  assumes "N \<le> strideSrc" "N \<le> strideDst"
    and "\<And>m n. m < M \<Longrightarrow> n < N \<Longrightarrow> i \<noteq> m * strideDst + n"
  shows "plp_mat_copy_stride_i32s_rv32im_unroll src M N strideSrc strideDst dst i = dst i"
  by (simp only: copy_i32s_unroll_rows [OF assms(1,2)] mat_fill_other [OF assms(3)])



lemma copy_i32s_plain_other:
  assumes "N \<le> strideSrc" "N \<le> strideDst"
    and "\<And>m n. m < M \<Longrightarrow> n < N \<Longrightarrow> i \<noteq> m * strideDst + n"
  shows "plp_mat_copy_stride_i32s_rv32im_plain src M N strideSrc strideDst dst i = dst i"
  by (simp only: copy_i32s_plain_rows mat_fill_other [OF assms(3)])



lemma copy_i16s_rv32im_plain_other:
  assumes "N \<le> strideSrc" "N \<le> strideDst"
    and "\<And>m n. m < M \<Longrightarrow> n < N \<Longrightarrow> i \<noteq> m * strideDst + n"
  shows "plp_mat_copy_stride_i16s_rv32im_plain src M N strideSrc strideDst dst i = dst i"
  by (simp only: copy_i16s_rv32im_plain_rows [OF assms(1,2)] mat_fill_other [OF assms(3)])



lemma copy_i8s_rv32im_unroll_other:
  assumes "N \<le> strideSrc" "N \<le> strideDst"
    and "\<And>m n. m < M \<Longrightarrow> n < N \<Longrightarrow> i \<noteq> m * strideDst + n"
  shows "plp_mat_copy_stride_i8s_rv32im_unroll src M N strideSrc strideDst dst i = dst i"
  by (simp only: copy_i8s_rv32im_unroll_rows [OF assms(1,2)] mat_fill_other [OF assms(3)])



lemma copy_i8s_rv32im_plain_other:
  assumes "N \<le> strideSrc" "N \<le> strideDst"
    and "\<And>m n. m < M \<Longrightarrow> n < N \<Longrightarrow> i \<noteq> m * strideDst + n"
  shows "plp_mat_copy_stride_i8s_rv32im_plain src M N strideSrc strideDst dst i = dst i"
  by (simp only: copy_i8s_rv32im_plain_rows [OF assms(1,2)] mat_fill_other [OF assms(3)])



lemma copy_i16s_xpulpv2_unroll_other:
  assumes "N \<le> strideSrc" "N \<le> strideDst"
    and "\<And>m n. m < M \<Longrightarrow> n < N \<Longrightarrow> i \<noteq> m * strideDst + n"
  shows "plp_mat_copy_stride_i16s_xpulpv2_unroll src M N strideSrc strideDst dst i = dst i"
  by (simp only: copy_i16s_xpulpv2_unroll_rows [OF assms(1,2)] mat_fill_other [OF assms(3)])



lemma copy_i16s_xpulpv2_plain_other:
  assumes "N \<le> strideSrc" "N \<le> strideDst"
    and "\<And>m n. m < M \<Longrightarrow> n < N \<Longrightarrow> i \<noteq> m * strideDst + n"
  shows "plp_mat_copy_stride_i16s_xpulpv2_plain src M N strideSrc strideDst dst i = dst i"
  by (simp only: copy_i16s_xpulpv2_plain_rows [OF assms(1,2)] mat_fill_other [OF assms(3)])


lemma add_i16p_call:
  assumes "0 < nPE" "N \<le> strideA" "N \<le> strideB" "N \<le> strideY"
  shows "plp_mat_add_stride_i16p_xpulpv2 (add_args srcA srcB M N strideA strideB strideY nPE dst) core_id
    = Some (pe_return (pe_fill (\<lambda>m n. srcA (m * strideA + n) + srcB (m * strideB + n))
        M N strideY nPE core_id dst))"
  using add_i16p_rows [of "add_args srcA srcB M N strideA strideB strideY nPE dst" core_id] assms
  by simp

lemma add_i16p_all:
  assumes "0 < nPE" "N \<le> strideA" "N \<le> strideB" "N \<le> strideY"
  shows "run_cores (\<lambda>p d. plp_mat_add_stride_i16p_xpulpv2 (add_args srcA srcB M N strideA strideB strideY nPE d) p) nPE dst
    = Some (mat_fill (\<lambda>m n. srcA (m * strideA + n) + srcB (m * strideB + n)) M N strideY dst)"
  by (simp only: run_cores_fill [where call = "\<lambda>p d. plp_mat_add_stride_i16p_xpulpv2 (add_args srcA srcB M N strideA strideB strideY nPE d) p",
        OF add_i16p_call [OF assms]] cores_fill_mat_fill [OF assms(4,1)])

lemma add_i8p_call:
  assumes "0 < nPE" "N \<le> strideA" "N \<le> strideB" "N \<le> strideY"
  shows "plp_mat_add_stride_i8p_xpulpv2 (add_args srcA srcB M N strideA strideB strideY nPE dst) core_id
    = Some (pe_return (pe_fill (\<lambda>m n. srcA (m * strideA + n) + srcB (m * strideB + n))
        M N strideY nPE core_id dst))"
  using add_i8p_rows [of "add_args srcA srcB M N strideA strideB strideY nPE dst" core_id] assms
  by simp

lemma add_i8p_all:
  assumes "0 < nPE" "N \<le> strideA" "N \<le> strideB" "N \<le> strideY"
  shows "run_cores (\<lambda>p d. plp_mat_add_stride_i8p_xpulpv2 (add_args srcA srcB M N strideA strideB strideY nPE d) p) nPE dst
    = Some (mat_fill (\<lambda>m n. srcA (m * strideA + n) + srcB (m * strideB + n)) M N strideY dst)"
  by (simp only: run_cores_fill [where call = "\<lambda>p d. plp_mat_add_stride_i8p_xpulpv2 (add_args srcA srcB M N strideA strideB strideY nPE d) p",
        OF add_i8p_call [OF assms]] cores_fill_mat_fill [OF assms(4,1)])

lemma copy_i16p_call:
  assumes "0 < nPE" "N \<le> strideSrc" "N \<le> strideDst"
  shows "plp_mat_copy_stride_i16p_xpulpv2 (cpy_args src M N strideSrc strideDst nPE dst) core_id
    = Some (pe_return (pe_fill (\<lambda>m n. src (m * strideSrc + n)) M N strideDst nPE core_id dst))"
  using copy_i16p_rows [of "cpy_args src M N strideSrc strideDst nPE dst" core_id] assms
  by simp


lemma copy_i8p_call:
  assumes "0 < nPE" "N \<le> strideSrc" "N \<le> strideDst"
  shows "plp_mat_copy_stride_i8p_xpulpv2 (cpy_args src M N strideSrc strideDst nPE dst) core_id
    = Some (pe_return (pe_fill (\<lambda>m n. src (m * strideSrc + n)) M N strideDst nPE core_id dst))"
  using copy_i8p_rows [of "cpy_args src M N strideSrc strideDst nPE dst" core_id] assms
  by simp





lemma pe_fill_no_rows: "0 < nPE \<Longrightarrow> M \<le> core_id \<Longrightarrow> pe_fill f M N sy nPE core_id mem = mem"
  by (simp add: pe_fill_def row_count_done)

lemma pe_share:
  assumes "0 < nPE" "core_id < nPE" "N \<le> sy"
  shows "(\<forall>m n. m < M \<and> m mod nPE = core_id \<and> n < N
            \<longrightarrow> pe_fill f M N sy nPE core_id mem (m * sy + n) = f m n)
       \<and> (\<forall>i. (\<forall>m n. m < M \<and> m mod nPE = core_id \<and> n < N \<longrightarrow> i \<noteq> m * sy + n)
            \<longrightarrow> pe_fill f M N sy nPE core_id mem i = mem i)"
  using assms by (auto simp add: pe_fill_at intro!: pe_fill_other)

lemma no_barrier_map: "map_option (pe_return \<circ> g) r = Some s \<Longrightarrow> pe_barriers s = []"
  by (cases r) (auto simp add: pe_return_def)


subsection \<open>Scalar arithmetic as word arithmetic\<close>

lemma c_sub_fun: "c_sub = (-)"
  by (intro ext) (rule c_sub_eq)

lemma c_add_fun: "c_add = (+)"
  by (intro ext) (rule c_add_eq)

lemma uint_c_add: "uint (c_add x y) = (uint x + uint y) mod 2 ^ LENGTH('a)" for x y :: "'a::len word"
  by (simp add: c_add_eq uint_word_ariths)

lemma uint_c_sub: "uint (c_sub x y) = (uint x - uint y) mod 2 ^ LENGTH('a)" for x y :: "'a::len word"
  by (simp add: c_sub_eq uint_word_ariths)

text \<open>
  A store of \<open>ADD2\<close>, \<open>SUB2\<close> or \<open>ADD4\<close> of two loaded words writes \<open>c_add\<close> or \<open>c_sub\<close>
  of the elements, lane by lane. No carry passes between lanes (\<open>ADD2\<close> of \<open>0x0000FFFF\<close>
  and \<open>1\<close> is \<open>0\<close>, where the 32-bit sum is \<open>0x00010000\<close>) and nothing saturates
  (\<open>0x7F + 1\<close> is \<open>0x80\<close> in an 8-bit lane).
\<close>

lemma packed_statements_wrap:
  "st_w16 dst p (ADD2 (ld_w16 srcA a) (ld_w16 srcB b))
      = dst(p := c_add (srcA a) (srcB b), p + 1 := c_add (srcA (a + 1)) (srcB (b + 1)))
   \<and> st_w16 dst p (SUB2 (ld_w16 srcA a) (ld_w16 srcB b))
      = dst(p := c_sub (srcA a) (srcB b), p + 1 := c_sub (srcA (a + 1)) (srcB (b + 1)))
   \<and> st_w8 dst8 p (ADD4 (ld_w8 srcA8 a) (ld_w8 srcB8 b))
      = dst8(p := c_add (srcA8 a) (srcB8 b), p + 1 := c_add (srcA8 (a + 1)) (srcB8 (b + 1)),
             p + 2 := c_add (srcA8 (a + 2)) (srcB8 (b + 2)), p + 3 := c_add (srcA8 (a + 3)) (srcB8 (b + 3)))
   \<and> ADD2 0x0000FFFF 0x00000001 = 0 \<and> (0x0000FFFF :: 32 word) + 0x00000001 = 0x00010000
   \<and> ADD4 0x7F 0x01 = 0x80"
proof -
  have "ADD2 0x0000FFFF 0x00000001 = 0" by (simp add: ADD2_def)
  moreover have "(0x0000FFFF :: 32 word) + 0x00000001 = 0x00010000" by simp
  moreover have "ADD4 0x7F 0x01 = 0x80" by (simp add: ADD4_def)
  ultimately show ?thesis
    by (simp only: st_ADD2 st_SUB2 st_ADD4 c_add_eq c_sub_eq simp_thms)
qed

subsection \<open>The team of the transposed multiplication\<close>

lemma mult_trans_by_rows:
  "plp_mat_mult_trans_i16vp_xpulpv2 args core_id
     = map_option (rt_team_barrier \<circ> pe_return)
         (for_rows (mm_M args) (mm_nPE args) (mult_trans_row args) core_id (mm_pDstC args))"
  unfolding plp_mat_mult_trans_i16vp_xpulpv2_def mult_trans_row_def Let_def by (rule refl)

lemma mult_trans_row_fill:
  "mult_trans_row args m
     = fill (dot_i16 (mm_pSrcA args) (mm_pSrcB args) (mm_N args) m) (m * mm_O args) (mm_O args)"
  unfolding mult_trans_row_def Let_def
  using fold_upd_fill [of "m * mm_O args" "dot_i16 (mm_pSrcA args) (mm_pSrcB args) (mm_N args) m" "mm_O args"]
  by (simp add: dot_fold dot_i16_def fun_eq_iff)

lemma fill_row_at:
  assumes "k < O'"
  shows "fill f (m * O') O' mem (r * O' + k) = (if r = m then f k else mem (r * O' + k))"
proof (cases "r = m")
  case True
  with assms show ?thesis by (simp add: fill_def)
next
  case False
  have "\<not> (m * O' \<le> r * O' + k \<and> r * O' + k < m * O' + O')"
  proof
    assume h: "m * O' \<le> r * O' + k \<and> r * O' + k < m * O' + O'"
    then have "r * O' + k = m * O' + (r * O' + k - m * O')" "r * O' + k - m * O' < O'" by auto
    from view_unique [OF assms this(2) this(1)] False show False by simp
  qed
  with False show ?thesis by (auto simp add: fill_def)
qed

lemma all_arrived_iff: "all_arrived nPE t \<longleftrightarrow> (\<forall>q<nPE. arrived (team_pc t q))"
  by (auto simp add: all_arrived_def list_all_iff)

text \<open>The steps of a processing element, case by case.\<close>

lemma step_row:
  assumes "p < mm_nPE args" "team_pc t p = In_loop m" "m < mm_M args"
  shows "mult_trans_step args p t
    = t\<lparr>team_pc := (team_pc t)(p := In_loop (m + mm_nPE args)),
        team_dstC := mult_trans_row args m (team_dstC t)\<rparr>"
  using assms by (simp add: mult_trans_step_def)

lemma step_arrive:
  assumes "p < mm_nPE args" "team_pc t p = In_loop m" "\<not> m < mm_M args"
  shows "mult_trans_step args p t = t\<lparr>team_pc := (team_pc t)(p := At_barrier)\<rparr>"
  using assms by (simp add: mult_trans_step_def)

lemma step_leave:
  assumes "p < mm_nPE args" "team_pc t p = At_barrier" "all_arrived (mm_nPE args) t"
  shows "mult_trans_step args p t
    = t\<lparr>team_pc := (team_pc t)(p := Returned),
        team_barriers := (team_barriers t)(p := team_barriers t p + 1)\<rparr>"
  using assms by (simp add: mult_trans_step_def)

lemma step_idle:
  assumes "\<not> p < mm_nPE args \<or> team_pc t p = Returned
    \<or> (team_pc t p = At_barrier \<and> \<not> all_arrived (mm_nPE args) t)"
  shows "mult_trans_step args p t = t"
  using assms by (auto simp add: mult_trans_step_def)

lemma step_cases:
  assumes "\<And>m. p < mm_nPE args \<Longrightarrow> team_pc t p = In_loop m \<Longrightarrow> m < mm_M args \<Longrightarrow>
      P (t\<lparr>team_pc := (team_pc t)(p := In_loop (m + mm_nPE args)),
           team_dstC := mult_trans_row args m (team_dstC t)\<rparr>)"
    and "\<And>m. p < mm_nPE args \<Longrightarrow> team_pc t p = In_loop m \<Longrightarrow> \<not> m < mm_M args \<Longrightarrow>
      P (t\<lparr>team_pc := (team_pc t)(p := At_barrier)\<rparr>)"
    and "p < mm_nPE args \<Longrightarrow> team_pc t p = At_barrier \<Longrightarrow> all_arrived (mm_nPE args) t \<Longrightarrow>
      P (t\<lparr>team_pc := (team_pc t)(p := Returned),
           team_barriers := (team_barriers t)(p := team_barriers t p + 1)\<rparr>)"
    and "P t"
  shows "P (mult_trans_step args p t)"
proof (cases "p < mm_nPE args")
  case False
  then show ?thesis using assms(4) by (simp add: step_idle)
next
  case p: True
  show ?thesis
  proof (cases "team_pc t p")
    case (In_loop m)
    show ?thesis
    proof (cases "m < mm_M args")
      case True
      from assms(1) [OF p In_loop True] show ?thesis by (simp only: step_row [OF p In_loop True])
    next
      case False
      from assms(2) [OF p In_loop False] show ?thesis by (simp only: step_arrive [OF p In_loop False])
    qed
  next
    case At_barrier
    show ?thesis
    proof (cases "all_arrived (mm_nPE args) t")
      case True
      from assms(3) [OF p At_barrier True] show ?thesis by (simp only: step_leave [OF p At_barrier True])
    next
      case False
      with At_barrier show ?thesis using assms(4) by (simp add: step_idle)
    qed
  next
    case Returned
    then show ?thesis using assms(4) by (simp add: step_idle)
  qed
qed

text \<open>The loop counter of the processing element \<open>p\<close> stays in the residue class of
  \<open>p\<close>.\<close>

lemma step_counter:
  assumes "\<forall>q m. q < mm_nPE args \<and> team_pc t q = In_loop m \<longrightarrow> m mod mm_nPE args = q"
  shows "\<forall>q m. q < mm_nPE args \<and> team_pc (mult_trans_step args p t) q = In_loop m
           \<longrightarrow> m mod mm_nPE args = q"
  by (rule step_cases) (use assms in \<open>auto split: if_splits\<close>)

lemma run_counter:
  "\<forall>q m. q < mm_nPE args \<and> team_pc (team_run args sched) q = In_loop m \<longrightarrow> m mod mm_nPE args = q"
proof (induction sched rule: rev_induct)
  case Nil
  show ?case by (simp add: team_run_def team_start_def)
next
  case (snoc p sched)
  from step_counter [OF snoc, of p] show ?case by (simp add: team_run_def)
qed

text \<open>Nobody has returned while somebody is in the loop.\<close>

lemma step_returned:
  assumes "\<forall>q. q < mm_nPE args \<and> team_pc t q = Returned \<longrightarrow> all_arrived (mm_nPE args) t"
  shows "\<forall>q. q < mm_nPE args \<and> team_pc (mult_trans_step args p t) q = Returned
           \<longrightarrow> all_arrived (mm_nPE args) (mult_trans_step args p t)"
proof (rule step_cases)
  fix m
  assume h: "p < mm_nPE args" "team_pc t p = In_loop m"
  then have n: "\<not> all_arrived (mm_nPE args) t" by (auto simp add: all_arrived_iff)
  with assms have "\<forall>q. q < mm_nPE args \<longrightarrow> team_pc t q \<noteq> Returned" by blast
  then show "\<forall>q. q < mm_nPE args
        \<and> team_pc (t\<lparr>team_pc := (team_pc t)(p := In_loop (m + mm_nPE args)),
                     team_dstC := mult_trans_row args m (team_dstC t)\<rparr>) q = Returned
      \<longrightarrow> all_arrived (mm_nPE args) (t\<lparr>team_pc := (team_pc t)(p := In_loop (m + mm_nPE args)),
                     team_dstC := mult_trans_row args m (team_dstC t)\<rparr>)"
    by auto
  from \<open>\<forall>q. q < mm_nPE args \<longrightarrow> team_pc t q \<noteq> Returned\<close>
  show "\<forall>q. q < mm_nPE args \<and> team_pc (t\<lparr>team_pc := (team_pc t)(p := At_barrier)\<rparr>) q = Returned
      \<longrightarrow> all_arrived (mm_nPE args) (t\<lparr>team_pc := (team_pc t)(p := At_barrier)\<rparr>)"
    by auto
next
  assume "all_arrived (mm_nPE args) t"
  then show "\<forall>q. q < mm_nPE args
        \<and> team_pc (t\<lparr>team_pc := (team_pc t)(p := Returned),
                     team_barriers := (team_barriers t)(p := team_barriers t p + 1)\<rparr>) q = Returned
      \<longrightarrow> all_arrived (mm_nPE args) (t\<lparr>team_pc := (team_pc t)(p := Returned),
                     team_barriers := (team_barriers t)(p := team_barriers t p + 1)\<rparr>)"
    by (simp add: all_arrived_iff)
next
  show "\<forall>q. q < mm_nPE args \<and> team_pc t q = Returned \<longrightarrow> all_arrived (mm_nPE args) t"
    by (rule assms)
qed

lemma run_returned:
  "\<forall>q. q < mm_nPE args \<and> team_pc (team_run args sched) q = Returned
     \<longrightarrow> all_arrived (mm_nPE args) (team_run args sched)"
proof (induction sched rule: rev_induct)
  case Nil
  show ?case by (simp add: team_run_def team_start_def)
next
  case (snoc p sched)
  from step_returned [OF snoc, of p] show ?case by (simp add: team_run_def)
qed

text \<open>A processing element has left one barrier behind when it has returned, and none
  before.\<close>

lemma step_barriers:
  assumes "\<forall>q. q < mm_nPE args \<longrightarrow> team_barriers t q = (if team_pc t q = Returned then 1 else 0)"
  shows "\<forall>q. q < mm_nPE args \<longrightarrow> team_barriers (mult_trans_step args p t) q
           = (if team_pc (mult_trans_step args p t) q = Returned then 1 else 0)"
  by (rule step_cases) (use assms in \<open>auto split: if_splits\<close>)

lemma run_barriers:
  "\<forall>q. q < mm_nPE args \<longrightarrow> team_barriers (team_run args sched) q
     = (if team_pc (team_run args sched) q = Returned then 1 else 0)"
proof (induction sched rule: rev_induct)
  case Nil
  show ?case by (simp add: team_run_def team_start_def)
next
  case (snoc p sched)
  from step_barriers [OF snoc, of p] show ?case by (simp add: team_run_def)
qed

text \<open>The rows that are done hold their dot products.\<close>

lemma step_rows:
  assumes n: "0 < mm_nPE args"
    and c: "\<forall>q m. q < mm_nPE args \<and> team_pc t q = In_loop m \<longrightarrow> m mod mm_nPE args = q"
    and d: "\<forall>r k. r < mm_M args \<and> k < mm_O args \<and> row_done (mm_nPE args) t r
      \<longrightarrow> team_dstC t (r * mm_O args + k) = dot_i16 (mm_pSrcA args) (mm_pSrcB args) (mm_N args) r k"
  shows "\<forall>r k. r < mm_M args \<and> k < mm_O args \<and> row_done (mm_nPE args) (mult_trans_step args p t) r
      \<longrightarrow> team_dstC (mult_trans_step args p t) (r * mm_O args + k)
          = dot_i16 (mm_pSrcA args) (mm_pSrcB args) (mm_N args) r k"
proof (rule step_cases)
  fix m
  assume h: "p < mm_nPE args" "team_pc t p = In_loop m" "m < mm_M args"
  from c h have mp: "m mod mm_nPE args = p" by blast
  let ?t = "t\<lparr>team_pc := (team_pc t)(p := In_loop (m + mm_nPE args)),
               team_dstC := mult_trans_row args m (team_dstC t)\<rparr>"
  show "\<forall>r k. r < mm_M args \<and> k < mm_O args \<and> row_done (mm_nPE args) ?t r
      \<longrightarrow> team_dstC ?t (r * mm_O args + k) = dot_i16 (mm_pSrcA args) (mm_pSrcB args) (mm_N args) r k"
  proof (intro allI impI)
    fix r k
    assume a: "r < mm_M args \<and> k < mm_O args \<and> row_done (mm_nPE args) ?t r"
    then have k: "k < mm_O args" and r: "r < mm_M args" by simp_all
    show "team_dstC ?t (r * mm_O args + k) = dot_i16 (mm_pSrcA args) (mm_pSrcB args) (mm_N args) r k"
    proof (cases "r = m")
      case True
      with k show ?thesis by (simp add: mult_trans_row_fill fill_row_at)
    next
      case False
      have "row_done (mm_nPE args) t r"
      proof (cases "r mod mm_nPE args = p")
        case True
        with a have "r < m + mm_nPE args" by (simp add: row_done_def)
        moreover have "r \<noteq> m" by (rule False)
        moreover have "r mod mm_nPE args = m mod mm_nPE args" using True mp by simp
        ultimately have "r < m"
        proof -
          assume 1: "r < m + mm_nPE args" and 2: "r \<noteq> m" and 3: "r mod mm_nPE args = m mod mm_nPE args"
          show "r < m"
          proof (rule ccontr)
            assume "\<not> r < m"
            with 2 have mr: "m < r" by simp
            from 3 have "(r - m) mod mm_nPE args = 0"
              using mr by (metis mod_eq_dvd_iff_nat less_imp_le dvd_eq_mod_eq_0)
            moreover from 1 mr have "r - m < mm_nPE args" "0 < r - m" by simp_all
            ultimately show False by simp
          qed
        qed
        with True h show ?thesis by (simp add: row_done_def)
      next
        case False
        with a show ?thesis by (simp add: row_done_def)
      qed
      with d r k have "team_dstC t (r * mm_O args + k)
          = dot_i16 (mm_pSrcA args) (mm_pSrcB args) (mm_N args) r k" by blast
      with False k show ?thesis by (simp add: mult_trans_row_fill fill_row_at)
    qed
  qed
next
  fix m
  assume h: "p < mm_nPE args" "team_pc t p = In_loop m" "\<not> m < mm_M args"
  let ?t = "t\<lparr>team_pc := (team_pc t)(p := At_barrier)\<rparr>"
  show "\<forall>r k. r < mm_M args \<and> k < mm_O args \<and> row_done (mm_nPE args) ?t r
      \<longrightarrow> team_dstC ?t (r * mm_O args + k) = dot_i16 (mm_pSrcA args) (mm_pSrcB args) (mm_N args) r k"
  proof (intro allI impI)
    fix r k
    assume a: "r < mm_M args \<and> k < mm_O args \<and> row_done (mm_nPE args) ?t r"
    have "row_done (mm_nPE args) t r"
    proof (cases "r mod mm_nPE args = p")
      case True
      with h a show ?thesis by (simp add: row_done_def)
    next
      case False
      with a show ?thesis by (simp add: row_done_def)
    qed
    with d a show "team_dstC ?t (r * mm_O args + k)
        = dot_i16 (mm_pSrcA args) (mm_pSrcB args) (mm_N args) r k" by simp
  qed
next
  assume h: "p < mm_nPE args" "team_pc t p = At_barrier"
  let ?t = "t\<lparr>team_pc := (team_pc t)(p := Returned),
               team_barriers := (team_barriers t)(p := team_barriers t p + 1)\<rparr>"
  show "\<forall>r k. r < mm_M args \<and> k < mm_O args \<and> row_done (mm_nPE args) ?t r
      \<longrightarrow> team_dstC ?t (r * mm_O args + k) = dot_i16 (mm_pSrcA args) (mm_pSrcB args) (mm_N args) r k"
  proof (intro allI impI)
    fix r k
    assume a: "r < mm_M args \<and> k < mm_O args \<and> row_done (mm_nPE args) ?t r"
    have "row_done (mm_nPE args) t r"
    proof (cases "r mod mm_nPE args = p")
      case True
      with h show ?thesis by (simp add: row_done_def)
    next
      case False
      with a show ?thesis by (simp add: row_done_def)
    qed
    with d a show "team_dstC ?t (r * mm_O args + k)
        = dot_i16 (mm_pSrcA args) (mm_pSrcB args) (mm_N args) r k" by simp
  qed
next
  show "\<forall>r k. r < mm_M args \<and> k < mm_O args \<and> row_done (mm_nPE args) t r
      \<longrightarrow> team_dstC t (r * mm_O args + k) = dot_i16 (mm_pSrcA args) (mm_pSrcB args) (mm_N args) r k"
    by (rule d)
qed

lemma start_rows:
  assumes "0 < mm_nPE args"
  shows "\<not> row_done (mm_nPE args) (team_start args) r"
proof -
  show ?thesis by (simp add: row_done_def team_start_def not_less)
qed

lemma run_rows:
  assumes "0 < mm_nPE args"
  shows "\<forall>r k. r < mm_M args \<and> k < mm_O args \<and> row_done (mm_nPE args) (team_run args sched) r
      \<longrightarrow> team_dstC (team_run args sched) (r * mm_O args + k)
          = dot_i16 (mm_pSrcA args) (mm_pSrcB args) (mm_N args) r k"
proof (induction sched rule: rev_induct)
  case Nil
  show ?case using start_rows [OF assms] by (simp add: team_run_def)
next
  case (snoc p sched)
  from step_rows [OF assms run_counter [of args sched] snoc, of p]
  show ?case by (simp add: team_run_def)
qed

text \<open>Some processing element can always take a step that brings the team closer to
  the return of all.\<close>

lemma sum_upd_less:
  assumes "p < (n::nat)" "f x < f (g p)"
  shows "(\<Sum>q<n. f ((g(p := x)) q)) < (\<Sum>q<n. (f (g q) :: nat))"
proof -
  have fin: "finite {..<n}" and mem: "p \<in> {..<n}" using assms(1) by simp_all
  have "(\<Sum>q<n. f ((g(p := x)) q)) = f x + (\<Sum>q\<in>{..<n} - {p}. f ((g(p := x)) q))"
    using sum.remove [OF fin mem, of "\<lambda>q. f ((g(p := x)) q)"] by simp
  also have "(\<Sum>q\<in>{..<n} - {p}. f ((g(p := x)) q)) = (\<Sum>q\<in>{..<n} - {p}. f (g q))"
    by (rule sum.cong) simp_all
  finally have a: "(\<Sum>q<n. f ((g(p := x)) q)) = f x + (\<Sum>q\<in>{..<n} - {p}. f (g q))" .
  have b: "(\<Sum>q<n. f (g q)) = f (g p) + (\<Sum>q\<in>{..<n} - {p}. f (g q))"
    using sum.remove [OF fin mem, of "\<lambda>q. f (g q)"] by simp
  from assms(2) show ?thesis unfolding a b by simp
qed

lemma team_progress:
  assumes n: "0 < mm_nPE args" and w: "team_todo args t \<noteq> 0"
  shows "\<exists>p. team_todo args (mult_trans_step args p t) < team_todo args t"
proof (cases "all_arrived (mm_nPE args) t")
  case False
  then obtain p m where p: "p < mm_nPE args" "team_pc t p = In_loop m"
    unfolding all_arrived_iff using arrived.elims(3) by blast
  show ?thesis
  proof (cases "m < mm_M args")
    case True
    with n have "todo (mm_M args) (In_loop (m + mm_nPE args)) < todo (mm_M args) (team_pc t p)"
      using p by simp
    from sum_upd_less [OF p(1), of "todo (mm_M args)" "In_loop (m + mm_nPE args)" "team_pc t", OF this]
    have "team_todo args (mult_trans_step args p t) < team_todo args t"
      by (simp add: team_todo_def step_row [OF p True])
    then show ?thesis ..
  next
    case False
    have "todo (mm_M args) At_barrier < todo (mm_M args) (team_pc t p)" using p by simp
    from sum_upd_less [OF p(1), of "todo (mm_M args)" At_barrier "team_pc t", OF this]
    have "team_todo args (mult_trans_step args p t) < team_todo args t"
      by (simp add: team_todo_def step_arrive [OF p False])
    then show ?thesis ..
  qed
next
  case True
  from w obtain p where p: "p < mm_nPE args" "todo (mm_M args) (team_pc t p) \<noteq> 0"
    by (auto simp add: team_todo_def)
  from True p(1) have "arrived (team_pc t p)" by (simp add: all_arrived_iff)
  with p(2) have b: "team_pc t p = At_barrier" by (cases "team_pc t p") simp_all
  have "todo (mm_M args) Returned < todo (mm_M args) (team_pc t p)" using b by simp
  from sum_upd_less [OF p(1), of "todo (mm_M args)" Returned "team_pc t", OF this]
  have "team_todo args (mult_trans_step args p t) < team_todo args t"
    by (simp add: team_todo_def step_leave [OF p(1) b True])
  then show ?thesis ..
qed

lemma team_todo_0:
  assumes "team_todo args t = 0" "p < mm_nPE args"
  shows "team_pc t p = Returned"
proof -
  from assms have "todo (mm_M args) (team_pc t p) = 0" by (simp add: team_todo_def)
  then show ?thesis by (cases "team_pc t p") simp_all
qed

lemma team_returns:
  assumes "0 < mm_nPE args"
  shows "\<exists>sched. \<forall>p<mm_nPE args. team_pc (fold (mult_trans_step args) sched t) p = Returned"
proof (induction "team_todo args t" arbitrary: t rule: less_induct)
  case less
  show ?case
  proof (cases "team_todo args t = 0")
    case True
    then have "\<forall>p<mm_nPE args. team_pc (fold (mult_trans_step args) [] t) p = Returned"
      by (simp add: team_todo_0)
    then show ?thesis ..
  next
    case False
    from team_progress [OF assms False] obtain p
      where "team_todo args (mult_trans_step args p t) < team_todo args t" ..
    from less [OF this] obtain sched
      where "\<forall>q<mm_nPE args. team_pc (fold (mult_trans_step args) sched (mult_trans_step args p t)) q = Returned" ..
    then have "\<forall>q<mm_nPE args. team_pc (fold (mult_trans_step args) (p # sched) t) q = Returned"
      by simp
    then show ?thesis ..
  qed
qed

text \<open>The row loop of a parallel kernel returns when \<open>nPE\<close> is positive.\<close>

lemma for_rows_returns: "0 < nPE \<Longrightarrow> \<exists>s'. for_rows M nPE body m s = Some s'"
  by (simp add: for_rows_fold)

lemma if_returns:
  "(c \<Longrightarrow> \<exists>s. a = Some s) \<Longrightarrow> (\<not> c \<Longrightarrow> \<exists>s. b = Some s) \<Longrightarrow> \<exists>s. (if c then a else b) = Some s"
  by simp

lemma returns_without_barrier:
  "\<exists>x. r = Some x \<Longrightarrow> \<exists>s. map_option (pe_return \<circ> g) r = Some s \<and> pe_barriers s = []"
  by (auto simp add: pe_return_def)

text \<open>A row that is done stays done, and a cell of no row that is done is as it was
  when the calls began.\<close>

lemma step_done:
  assumes "row_done (mm_nPE args) t r"
  shows "row_done (mm_nPE args) (mult_trans_step args p t) r"
  by (rule step_cases) (use assms in \<open>auto simp add: row_done_def split: pe_pc.splits\<close>)

lemma step_frame:
  assumes c: "\<forall>q m. q < mm_nPE args \<and> team_pc t q = In_loop m \<longrightarrow> m mod mm_nPE args = q"
    and f: "\<forall>i. (\<forall>r k. r < mm_M args \<and> k < mm_O args \<and> row_done (mm_nPE args) t r
                     \<longrightarrow> i \<noteq> r * mm_O args + k) \<longrightarrow> team_dstC t i = mm_pDstC args i"
  shows "\<forall>i. (\<forall>r k. r < mm_M args \<and> k < mm_O args \<and> row_done (mm_nPE args) (mult_trans_step args p t) r
                     \<longrightarrow> i \<noteq> r * mm_O args + k)
           \<longrightarrow> team_dstC (mult_trans_step args p t) i = mm_pDstC args i"
proof (intro allI impI)
  fix i
  assume a: "\<forall>r k. r < mm_M args \<and> k < mm_O args \<and> row_done (mm_nPE args) (mult_trans_step args p t) r
                     \<longrightarrow> i \<noteq> r * mm_O args + k"
  have old: "team_dstC t i = mm_pDstC args i"
    using f a step_done [of args t _ p] by blast
  show "team_dstC (mult_trans_step args p t) i = mm_pDstC args i"
  proof (cases "p < mm_nPE args \<and> (\<exists>m. team_pc t p = In_loop m \<and> m < mm_M args)")
    case True
    then obtain m where h: "p < mm_nPE args" "team_pc t p = In_loop m" "m < mm_M args" by blast
    from c h have mp: "m mod mm_nPE args = p" by blast
    have "row_done (mm_nPE args) (mult_trans_step args p t) m"
      using h mp by (simp add: step_row [OF h] row_done_def)
    with a h(3) have n: "\<forall>k. k < mm_O args \<longrightarrow> i \<noteq> m * mm_O args + k" by blast
    have "\<not> (m * mm_O args \<le> i \<and> i < m * mm_O args + mm_O args)"
    proof
      assume b: "m * mm_O args \<le> i \<and> i < m * mm_O args + mm_O args"
      then have "i = m * mm_O args + (i - m * mm_O args)" "i - m * mm_O args < mm_O args" by auto
      with n show False by blast
    qed
    then have "mult_trans_row args m (team_dstC t) i = team_dstC t i"
      by (auto simp add: mult_trans_row_fill fill_def)
    with old show ?thesis by (simp add: step_row [OF h])
  next
    case False
    have "team_dstC (mult_trans_step args p t) = team_dstC t"
      by (rule step_cases) (use False in auto)
    with old show ?thesis by simp
  qed
qed

lemma run_frame:
  "\<forall>i. (\<forall>r k. r < mm_M args \<and> k < mm_O args \<and> row_done (mm_nPE args) (team_run args sched) r
                \<longrightarrow> i \<noteq> r * mm_O args + k)
      \<longrightarrow> team_dstC (team_run args sched) i = mm_pDstC args i"
proof (induction sched rule: rev_induct)
  case Nil
  show ?case by (simp add: team_run_def team_start_def)
next
  case (snoc p sched)
  from step_frame [OF run_counter [of args sched] snoc, of p]
  show ?case by (simp add: team_run_def)
qed

text \<open>Once a processing element has arrived at the barrier its rows are done; once
  every one has, all rows are, and the destination is the whole product.\<close>

lemma arrived_done:
  assumes "arrived (team_pc t (r mod mm_nPE args))"
  shows "row_done (mm_nPE args) t r"
  using assms by (cases "team_pc t (r mod mm_nPE args)") (simp_all add: row_done_def)

lemma run_complete:
  assumes n: "0 < mm_nPE args" and a: "all_arrived (mm_nPE args) (team_run args sched)"
  shows "team_dstC (team_run args sched)
    = mat_fill (dot_i16 (mm_pSrcA args) (mm_pSrcB args) (mm_N args)) (mm_M args) (mm_O args) (mm_O args)
        (mm_pDstC args)"
proof (rule ext)
  fix i
  have d: "row_done (mm_nPE args) (team_run args sched) r" for r
    using a n by (intro arrived_done) (simp add: all_arrived_iff)
  show "team_dstC (team_run args sched) i
    = mat_fill (dot_i16 (mm_pSrcA args) (mm_pSrcB args) (mm_N args)) (mm_M args) (mm_O args) (mm_O args)
        (mm_pDstC args) i"
  proof (cases "\<exists>r k. r < mm_M args \<and> k < mm_O args \<and> i = r * mm_O args + k")
    case True
    then obtain r k where h: "r < mm_M args" "k < mm_O args" "i = r * mm_O args + k" by blast
    from run_rows [OF n, of sched] h d
    have "team_dstC (team_run args sched) i = dot_i16 (mm_pSrcA args) (mm_pSrcB args) (mm_N args) r k"
      by blast
    with h show ?thesis by (simp add: mat_fill_at)
  next
    case False
    then have o: "\<And>r k. r < mm_M args \<Longrightarrow> k < mm_O args \<Longrightarrow> i \<noteq> r * mm_O args + k" by blast
    with run_frame [of args sched] have "team_dstC (team_run args sched) i = mm_pDstC args i" by blast
    with o show ?thesis by (simp add: mat_fill_other)
  qed
qed

lemma mult_trans_all:
  assumes "0 < mm_nPE args"
  shows "run_cores (\<lambda>p d. plp_mat_mult_trans_i16vp_xpulpv2 (args\<lparr>mm_pDstC := d\<rparr>) p) (mm_nPE args)
           (mm_pDstC args)
    = Some (mat_fill (dot_i16 (mm_pSrcA args) (mm_pSrcB args) (mm_N args)) (mm_M args) (mm_O args)
        (mm_O args) (mm_pDstC args))"
proof -
  have "run_cores (\<lambda>p d. plp_mat_mult_trans_i16vp_xpulpv2 (args\<lparr>mm_pDstC := d\<rparr>) p) (mm_nPE args)
           (mm_pDstC args)
    = fold (\<lambda>core_id r. case r of None \<Rightarrow> None
         | Some d \<Rightarrow> Some (pe_fill (dot_i16 (mm_pSrcA args) (mm_pSrcB args) (mm_N args)) (mm_M args)
             (mm_O args) (mm_O args) (mm_nPE args) core_id d)) [0..<mm_nPE args] (Some (mm_pDstC args))"
    unfolding run_cores_def using assms
    by (simp add: mult_trans_rows rt_team_barrier_def pe_return_def cong: option.case_cong)
  also have "\<dots> = Some (cores_fill (dot_i16 (mm_pSrcA args) (mm_pSrcB args) (mm_N args)) (mm_M args)
             (mm_O args) (mm_O args) (mm_nPE args) (mm_nPE args) (mm_pDstC args))"
  proof -
    have "fold (\<lambda>core_id r. case r of None \<Rightarrow> None
         | Some d \<Rightarrow> Some (pe_fill f M N sy nPE core_id d)) [0..<k] (Some dst)
       = Some (cores_fill f M N sy nPE k dst)" for f :: "nat \<Rightarrow> nat \<Rightarrow> 32 word" and M N sy nPE k dst
      by (induction k) simp_all
    then show ?thesis by simp
  qed
  finally show ?thesis by (simp add: cores_fill_mat_fill [OF le_refl assms])
qed

lemma upt_2: "[0..<2] = [0, 1]"
  by (simp add: upt_rec)

subsection \<open>The square-root kernel\<close>

lemma funpow_numIters:
  "(f ^^ numIters) x = f (f (f (f (f (f (f (f (f (f (f (f (f (f (f x))))))))))))))"
  by (simp add: numIters_def eval_nat_numeral)

lemma blen_numeral:
  "blen 0 = 0" "blen 1 = 1" "blen (Suc 0) = 1"
  "blen (numeral Num.One) = 1"
  "blen (numeral (Num.Bit0 k)) = 1 + blen (numeral k)"
  "blen (numeral (Num.Bit1 k)) = 1 + blen (numeral k)"
  by (simp_all add: blen.simps [of 0] blen.simps [of 1] blen.simps [of "Suc 0"]
      blen.simps [of "numeral (Num.Bit0 k)"] blen.simps [of "numeral (Num.Bit1 k)"]
      numeral_Bit1_div_2)

lemmas f32_eval = blen_numeral num_of_def den_of_def ilog_from_def ilog_def nearest_even_def
  f32_pack_def round_ratio_def round_at_def f32_round_def with_sign_def round_int_def

text \<open>A rounded value has the sign it was given.\<close>

lemma f32_round_sign:
  "f32_round s p q = Infinity s \<or> (\<exists>m e. f32_round s p q = Finite s m e)"
  by (simp add: f32_round_def round_at_def round_ratio_def f32_pack_def)

lemma f32_round_negative: "\<not> f32_gt (f32_round True p q) zero_f"
  using f32_round_sign [of True p q] by (auto simp: with_sign_def num_of_def den_of_def)

lemma f32_le_zero_cases:
  assumes "f32_le (Finite s m e) zero_f"
  shows "s \<or> m = 0"
  using assms by (auto simp: with_sign_def num_of_def den_of_def split: if_splits)

text \<open>Half of a value that is not above zero is not above zero.\<close>

lemma half_not_positive:
  assumes "f32_le pSrc zero_f"
  shows "\<not> f32_gt (f32_div pSrc two_f) zero_f"
proof (cases pSrc)
  case (Finite s m e)
  with assms have "s \<or> m = 0" by (simp only: f32_le_zero_cases)
  then show ?thesis
  proof
    assume s
    then show ?thesis using Finite by (simp add: f32_round_negative)
  next
    assume "m = 0"
    then show ?thesis using Finite by (simp add: f32_round_def num_of_def with_sign_def)
  qed
next
  case (Infinity s)
  with assms show ?thesis by simp
next
  case NaN
  with assms show ?thesis by simp
qed

text \<open>A NaN input takes the same branch.\<close>

lemma sqrt_of_nan: "plp_sqrt_f32s_xpulpv2 NaN = zero_f"
  by (simp add: plp_sqrt_f32s_xpulpv2_def)

text \<open>The kernel at 4 and at 1: one unit in the last place below 2 and below 1.\<close>

lemma sqrt_of_four: "plp_sqrt_f32s_xpulpv2 (Finite False 4 0) = Finite False 16777215 (- 23)"
  unfolding plp_sqrt_f32s_xpulpv2_def Let_def funpow_numIters
  by (simp add: newton_step_def f32_eval)

lemma sqrt_of_one: "plp_sqrt_f32s_xpulpv2 one_f = Finite False 16777215 (- 24)"
  unfolding plp_sqrt_f32s_xpulpv2_def Let_def funpow_numIters
  by (simp add: newton_step_def f32_eval)

text \<open>Whenever half of the input is above zero the kernel returns the input times the
  result of the 15 steps from the seed; half of the smallest positive input is rounded
  to zero, and the kernel returns zero there.\<close>

lemma sqrt_fifteen_steps:
  assumes "f32_gt (f32_div pSrc two_f) zero_f"
  shows "plp_sqrt_f32s_xpulpv2 pSrc
    = f32_mul ((newton_step (f32_div pSrc two_f) ^^ 15) (f32_div one_f (f32_mul two_f pSrc))) pSrc"
  using assms by (simp add: plp_sqrt_f32s_xpulpv2_def Let_def numIters_def)

lemma sqrt_of_least_positive: "plp_sqrt_f32s_xpulpv2 (Finite False 1 (- 149)) = zero_f"
  unfolding plp_sqrt_f32s_xpulpv2_def Let_def by (simp add: f32_eval)

lemma sqrt_million: "sqrt 1000000 = 1000"
  using real_sqrt_abs [of 1000] by simp

lemma half_of_million_positive: "f32_gt (f32_div (Finite False 1000000 0) two_f) zero_f"
  by (simp add: f32_eval)

lemma sqrt_of_million_value:
  "f32_mul ((newton_step (f32_div (Finite False 1000000 0) two_f) ^^ numIters)
      (f32_div one_f (f32_mul two_f (Finite False 1000000 0)))) (Finite False 1000000 0)
     = Finite False 14167626 (- 16)"
  unfolding funpow_numIters by (simp add: newton_step_def f32_eval)

section \<open>Claims\<close>





text \<open>
  Claim C3: the call of a parallel elementwise kernel with core id \<open>p\<close> handles exactly
  the rows \<open>m < M\<close> with \<open>m mod nPE = p\<close>: its row loop visits these rows in order, the
  cells of these rows receive their values and every other destination cell keeps its
  content. Over all core ids \<open>0, .., nPE - 1\<close> every row of \<open>0, .., M - 1\<close> is visited
  exactly once, and a call with \<open>core_id \<ge> M\<close> visits no row and returns the
  destination unchanged.
\<close>

theorem round_robin_partition:
  fixes A16 B16 D16 :: "16 buf" and A8 B8 D8 :: "8 buf"
  assumes "0 < nPE" "core_id < nPE" "N \<le> strideA" "N \<le> strideB" "N \<le> strideY"
  shows "rows_visited M nPE core_id = Some (filter (\<lambda>m. m mod nPE = core_id) [0..<M])
    \<and> mset (all_rows_visited M nPE) = mset [0..<M]
    \<and> (M \<le> core_id \<longrightarrow> rows_visited M nPE core_id = Some [])
    \<and> (\<exists>d. plp_mat_add_stride_i16p_xpulpv2 (add_args A16 B16 M N strideA strideB strideY nPE D16) core_id
              = Some (pe_return d)
          \<and> (\<forall>m n. m < M \<and> m mod nPE = core_id \<and> n < N
                \<longrightarrow> d (m * strideY + n) = A16 (m * strideA + n) + B16 (m * strideB + n))
          \<and> (\<forall>i. (\<forall>m n. m < M \<and> m mod nPE = core_id \<and> n < N \<longrightarrow> i \<noteq> m * strideY + n)
                \<longrightarrow> d i = D16 i)
          \<and> (M \<le> core_id \<longrightarrow> d = D16))
    \<and> (\<exists>d. plp_mat_add_stride_i8p_xpulpv2 (add_args A8 B8 M N strideA strideB strideY nPE D8) core_id
              = Some (pe_return d)
          \<and> (\<forall>m n. m < M \<and> m mod nPE = core_id \<and> n < N
                \<longrightarrow> d (m * strideY + n) = A8 (m * strideA + n) + B8 (m * strideB + n))
          \<and> (\<forall>i. (\<forall>m n. m < M \<and> m mod nPE = core_id \<and> n < N \<longrightarrow> i \<noteq> m * strideY + n)
                \<longrightarrow> d i = D8 i)
          \<and> (M \<le> core_id \<longrightarrow> d = D8))
    \<and> (\<exists>d. plp_mat_copy_stride_i16p_xpulpv2 (cpy_args A16 M N strideA strideY nPE D16) core_id
              = Some (pe_return d)
          \<and> (\<forall>m n. m < M \<and> m mod nPE = core_id \<and> n < N
                \<longrightarrow> d (m * strideY + n) = A16 (m * strideA + n))
          \<and> (\<forall>i. (\<forall>m n. m < M \<and> m mod nPE = core_id \<and> n < N \<longrightarrow> i \<noteq> m * strideY + n)
                \<longrightarrow> d i = D16 i)
          \<and> (M \<le> core_id \<longrightarrow> d = D16))
    \<and> (\<exists>d. plp_mat_copy_stride_i8p_xpulpv2 (cpy_args A8 M N strideA strideY nPE D8) core_id
              = Some (pe_return d)
          \<and> (\<forall>m n. m < M \<and> m mod nPE = core_id \<and> n < N
                \<longrightarrow> d (m * strideY + n) = A8 (m * strideA + n))
          \<and> (\<forall>i. (\<forall>m n. m < M \<and> m mod nPE = core_id \<and> n < N \<longrightarrow> i \<noteq> m * strideY + n)
                \<longrightarrow> d i = D8 i)
          \<and> (M \<le> core_id \<longrightarrow> d = D8))"
proof -
  note sh = pe_share [OF assms(1,2,5)] and nr = pe_fill_no_rows [OF assms(1)]
  have c0: "rows_visited M nPE core_id = Some (filter (\<lambda>m. m mod nPE = core_id) [0..<M])"
    by (simp only: rows_visited_eq [OF assms(1)] pe_rows_filter [OF assms(1,2)])
  have c1: "mset (all_rows_visited M nPE) = mset [0..<M]"
    by (rule all_rows_visited_mset [OF assms(1)])
  have c2: "M \<le> core_id \<longrightarrow> rows_visited M nPE core_id = Some []"
    using assms(1) by (simp add: rows_visited_eq pe_rows_done)
  have c3: "\<exists>d. plp_mat_add_stride_i16p_xpulpv2 (add_args A16 B16 M N strideA strideB strideY nPE D16) core_id
              = Some (pe_return d)
          \<and> (\<forall>m n. m < M \<and> m mod nPE = core_id \<and> n < N
                \<longrightarrow> d (m * strideY + n) = A16 (m * strideA + n) + B16 (m * strideB + n))
          \<and> (\<forall>i. (\<forall>m n. m < M \<and> m mod nPE = core_id \<and> n < N \<longrightarrow> i \<noteq> m * strideY + n)
                \<longrightarrow> d i = D16 i)
          \<and> (M \<le> core_id \<longrightarrow> d = D16)"
  proof -
    let ?d = "pe_fill (\<lambda>m n. A16 (m * strideA + n) + B16 (m * strideB + n)) M N strideY nPE core_id D16"
    from sh [of M "\<lambda>m n. A16 (m * strideA + n) + B16 (m * strideB + n)" D16] have a: "\<forall>m n. m < M \<and> m mod nPE = core_id \<and> n < N
                \<longrightarrow> ?d (m * strideY + n) = (\<lambda>m n. A16 (m * strideA + n) + B16 (m * strideB + n)) m n"
      and b: "\<forall>i. (\<forall>m n. m < M \<and> m mod nPE = core_id \<and> n < N \<longrightarrow> i \<noteq> m * strideY + n)
                \<longrightarrow> ?d i = D16 i" by blast+
    have c: "M \<le> core_id \<longrightarrow> ?d = D16" by (simp add: nr)
    show ?thesis
      by (rule exI [of _ ?d]) (use a b c add_i16p_call [OF assms(1,3,4,5)] in simp)
  qed
  have c4: "\<exists>d. plp_mat_add_stride_i8p_xpulpv2 (add_args A8 B8 M N strideA strideB strideY nPE D8) core_id
              = Some (pe_return d)
          \<and> (\<forall>m n. m < M \<and> m mod nPE = core_id \<and> n < N
                \<longrightarrow> d (m * strideY + n) = A8 (m * strideA + n) + B8 (m * strideB + n))
          \<and> (\<forall>i. (\<forall>m n. m < M \<and> m mod nPE = core_id \<and> n < N \<longrightarrow> i \<noteq> m * strideY + n)
                \<longrightarrow> d i = D8 i)
          \<and> (M \<le> core_id \<longrightarrow> d = D8)"
  proof -
    let ?d = "pe_fill (\<lambda>m n. A8 (m * strideA + n) + B8 (m * strideB + n)) M N strideY nPE core_id D8"
    from sh [of M "\<lambda>m n. A8 (m * strideA + n) + B8 (m * strideB + n)" D8] have a: "\<forall>m n. m < M \<and> m mod nPE = core_id \<and> n < N
                \<longrightarrow> ?d (m * strideY + n) = (\<lambda>m n. A8 (m * strideA + n) + B8 (m * strideB + n)) m n"
      and b: "\<forall>i. (\<forall>m n. m < M \<and> m mod nPE = core_id \<and> n < N \<longrightarrow> i \<noteq> m * strideY + n)
                \<longrightarrow> ?d i = D8 i" by blast+
    have c: "M \<le> core_id \<longrightarrow> ?d = D8" by (simp add: nr)
    show ?thesis
      by (rule exI [of _ ?d]) (use a b c add_i8p_call [OF assms(1,3,4,5)] in simp)
  qed
  have c5: "\<exists>d. plp_mat_copy_stride_i16p_xpulpv2 (cpy_args A16 M N strideA strideY nPE D16) core_id
              = Some (pe_return d)
          \<and> (\<forall>m n. m < M \<and> m mod nPE = core_id \<and> n < N
                \<longrightarrow> d (m * strideY + n) = A16 (m * strideA + n))
          \<and> (\<forall>i. (\<forall>m n. m < M \<and> m mod nPE = core_id \<and> n < N \<longrightarrow> i \<noteq> m * strideY + n)
                \<longrightarrow> d i = D16 i)
          \<and> (M \<le> core_id \<longrightarrow> d = D16)"
  proof -
    let ?d = "pe_fill (\<lambda>m n. A16 (m * strideA + n)) M N strideY nPE core_id D16"
    from sh [of M "\<lambda>m n. A16 (m * strideA + n)" D16] have a: "\<forall>m n. m < M \<and> m mod nPE = core_id \<and> n < N
                \<longrightarrow> ?d (m * strideY + n) = (\<lambda>m n. A16 (m * strideA + n)) m n"
      and b: "\<forall>i. (\<forall>m n. m < M \<and> m mod nPE = core_id \<and> n < N \<longrightarrow> i \<noteq> m * strideY + n)
                \<longrightarrow> ?d i = D16 i" by blast+
    have c: "M \<le> core_id \<longrightarrow> ?d = D16" by (simp add: nr)
    show ?thesis
      by (rule exI [of _ ?d]) (use a b c copy_i16p_call [OF assms(1,3,5)] in simp)
  qed
  have c6: "\<exists>d. plp_mat_copy_stride_i8p_xpulpv2 (cpy_args A8 M N strideA strideY nPE D8) core_id
              = Some (pe_return d)
          \<and> (\<forall>m n. m < M \<and> m mod nPE = core_id \<and> n < N
                \<longrightarrow> d (m * strideY + n) = A8 (m * strideA + n))
          \<and> (\<forall>i. (\<forall>m n. m < M \<and> m mod nPE = core_id \<and> n < N \<longrightarrow> i \<noteq> m * strideY + n)
                \<longrightarrow> d i = D8 i)
          \<and> (M \<le> core_id \<longrightarrow> d = D8)"
  proof -
    let ?d = "pe_fill (\<lambda>m n. A8 (m * strideA + n)) M N strideY nPE core_id D8"
    from sh [of M "\<lambda>m n. A8 (m * strideA + n)" D8] have a: "\<forall>m n. m < M \<and> m mod nPE = core_id \<and> n < N
                \<longrightarrow> ?d (m * strideY + n) = (\<lambda>m n. A8 (m * strideA + n)) m n"
      and b: "\<forall>i. (\<forall>m n. m < M \<and> m mod nPE = core_id \<and> n < N \<longrightarrow> i \<noteq> m * strideY + n)
                \<longrightarrow> ?d i = D8 i" by blast+
    have c: "M \<le> core_id \<longrightarrow> ?d = D8" by (simp add: nr)
    show ?thesis
      by (rule exI [of _ ?d]) (use a b c copy_i8p_call [OF assms(1,3,5)] in simp)
  qed
  show ?thesis by (intro conjI c0 c1 c2 c3 c4 c5 c6)
qed

theorem round_robin_partition_witness:
  "(0::nat) < 2 \<and> (1::nat) < 2 \<and> (3::nat) \<le> 3 \<and> (3::nat) \<le> 4 \<and> (3::nat) \<le> 5
   \<and> rows_visited 5 2 1 = Some [1, 3]
   \<and> mset (all_rows_visited 5 2) = mset [0, 1, 2, 3, 4]
   \<and> (\<exists>d. plp_mat_copy_stride_i8p_xpulpv2 (cpy_args (\<lambda>i. 4) 1 3 3 5 2 (\<lambda>i. 0)) 1 = Some (pe_return d)
         \<and> d = (\<lambda>i. 0))"
proof -
  have h: "(0::nat) < 2" "(1::nat) < 2" "(3::nat) \<le> 3" "(3::nat) \<le> 4" "(3::nat) \<le> 5" by simp_all
  note t = round_robin_partition [OF h, where M = 5 and ?A16.0 = "\<lambda>i. 4" and ?B16.0 = "\<lambda>i. 1"
      and ?D16.0 = "\<lambda>i. 0" and ?A8.0 = "\<lambda>i. 4" and ?B8.0 = "\<lambda>i. 1" and ?D8.0 = "\<lambda>i. 0"]
  note u = round_robin_partition [OF h, where M = 1 and ?A16.0 = "\<lambda>i. 4" and ?B16.0 = "\<lambda>i. 1"
      and ?D16.0 = "\<lambda>i. 0" and ?A8.0 = "\<lambda>i. 4" and ?B8.0 = "\<lambda>i. 1" and ?D8.0 = "\<lambda>i. 0"]
  have e: "filter (\<lambda>m. m mod 2 = 1) [0..<5] = [1, 3::nat]" "[0..<5] = [0, 1, 2, 3, 4::nat]"
    by code_simp+
  from t [THEN conjunct1] have a: "rows_visited 5 2 1 = Some [1, 3]"
    unfolding e(1) .
  from t [THEN conjunct2, THEN conjunct1] have b: "mset (all_rows_visited 5 2) = mset [0, 1, 2, 3, 4]"
    unfolding e(2) .
  from u [THEN conjunct2, THEN conjunct2, THEN conjunct2, THEN conjunct2, THEN conjunct2, THEN conjunct2]
  have c: "\<exists>d. plp_mat_copy_stride_i8p_xpulpv2 (cpy_args (\<lambda>i. 4) 1 3 3 5 2 (\<lambda>i. 0)) 1 = Some (pe_return d)
         \<and> d = (\<lambda>i. 0)"
    by (elim exE conjE) (rule exI, erule conjI, simp)
  show ?thesis by (intro conjI h a b c)
qed

text \<open>
  Claim C4: a kernel call leaves every destination cell outside the logical \<open>M\<close> by \<open>N\<close>
  view unchanged, in particular every cell of a row at or beyond row \<open>M\<close>. The unrolled
  16-bit copy for RV32IM does not: for an odd \<open>M\<close> its code for the last row still copies
  through \<open>pSrc2\<close> and \<open>pDst2\<close>, so it writes row \<open>M\<close>. With \<open>M = 1\<close>, \<open>N = 1\<close> and
  both strides 2, the cell at index 2 (row 1, column 0) receives the source value 7,
  while the 8-bit sibling, whose last row goes through \<open>pSrc1\<close> and \<open>pDst1\<close> only,
  leaves it at 0.
\<close>

theorem copy_i16s_rv32im_unroll_writes_row_M:
  "plp_mat_copy_stride_i16s_rv32im_unroll (\<lambda>i. 7) 1 1 2 2 (\<lambda>i. 0) 2 = 7
   \<and> plp_mat_copy_stride_i8s_rv32im_unroll (\<lambda>i. 7) 1 1 2 2 (\<lambda>i. 0) 2 = 0"
  by (simp add: plp_mat_copy_stride_i16s_rv32im_unroll_def plp_mat_copy_stride_i8s_rv32im_unroll_def
      Let_def u32_sub_def cp2_last_def cp2_next_def cdst2_of_def cdst_of_def row1_of_def cp_elem_def)

text \<open>
  Claim C5: in the packed add and subtract kernels every output element is the
  wrap-around sum or difference, modulo \<open>2 ^ w\<close>, of its two input elements, and the same
  bits as scalar arithmetic on the element type gives. The 16-bit subtraction for
  XPULPV2, which works on two lanes with \<open>SUB2\<close>, returns the same buffer as the scalar
  kernel for RV32IM and as the row-major double loop with the scalar \<open>c_sub\<close>; the
  parallel additions, which work on two lanes with \<open>ADD2\<close> and on four with \<open>ADD4\<close>,
  return over all cores the buffer of the double loop with the scalar \<open>c_add\<close>, and each
  call writes \<open>c_add\<close> of the two inputs into every cell of its rows. Read as unsigned
  numbers the outputs are the sum or difference modulo \<open>2 ^ 16\<close> or \<open>2 ^ 8\<close>.
\<close>

theorem packed_kernels_wrap:
  fixes srcA srcB dst :: "16 buf" and srcA8 srcB8 dst8 :: "8 buf"
  assumes "N \<le> strideA" "N \<le> strideB" "N \<le> strideY" "0 < nPE" "core_id < nPE"
  shows "plp_mat_sub_stride_i16s_xpulpv2_unroll srcA srcB M N strideA strideB strideY dst
           = plp_mat_sub_stride_i16s_rv32im_plain srcA srcB M N strideA strideB strideY dst
    \<and> plp_mat_sub_stride_i16s_xpulpv2_plain srcA srcB M N strideA strideB strideY dst
           = plp_mat_sub_stride_i16s_rv32im_plain srcA srcB M N strideA strideB strideY dst
    \<and> plp_mat_sub_stride_i16s_xpulpv2_unroll srcA srcB M N strideA strideB strideY dst
           = ref_mat_op c_sub srcA srcB M N strideA strideB strideY dst
    \<and> (\<forall>m n. m < M \<and> n < N \<longrightarrow>
          plp_mat_sub_stride_i16s_xpulpv2_unroll srcA srcB M N strideA strideB strideY dst (m * strideY + n)
            = c_sub (srcA (m * strideA + n)) (srcB (m * strideB + n))
        \<and> uint (plp_mat_sub_stride_i16s_xpulpv2_unroll srcA srcB M N strideA strideB strideY dst (m * strideY + n))
            = (uint (srcA (m * strideA + n)) - uint (srcB (m * strideB + n))) mod 2 ^ 16)
    \<and> run_cores (\<lambda>p d. plp_mat_add_stride_i16p_xpulpv2
                          (add_args srcA srcB M N strideA strideB strideY nPE d) p) nPE dst
           = Some (ref_mat_op c_add srcA srcB M N strideA strideB strideY dst)
    \<and> (\<exists>d. plp_mat_add_stride_i16p_xpulpv2
               (add_args srcA srcB M N strideA strideB strideY nPE dst) core_id = Some (pe_return d)
          \<and> (\<forall>m n. m < M \<and> m mod nPE = core_id \<and> n < N \<longrightarrow>
                d (m * strideY + n) = c_add (srcA (m * strideA + n)) (srcB (m * strideB + n))
              \<and> uint (d (m * strideY + n))
                  = (uint (srcA (m * strideA + n)) + uint (srcB (m * strideB + n))) mod 2 ^ 16))
    \<and> run_cores (\<lambda>p d. plp_mat_add_stride_i8p_xpulpv2
                          (add_args srcA8 srcB8 M N strideA strideB strideY nPE d) p) nPE dst8
           = Some (ref_mat_op c_add srcA8 srcB8 M N strideA strideB strideY dst8)
    \<and> (\<exists>d. plp_mat_add_stride_i8p_xpulpv2
               (add_args srcA8 srcB8 M N strideA strideB strideY nPE dst8) core_id = Some (pe_return d)
          \<and> (\<forall>m n. m < M \<and> m mod nPE = core_id \<and> n < N \<longrightarrow>
                d (m * strideY + n) = c_add (srcA8 (m * strideA + n)) (srcB8 (m * strideB + n))
              \<and> uint (d (m * strideY + n))
                  = (uint (srcA8 (m * strideA + n)) + uint (srcB8 (m * strideB + n))) mod 2 ^ 8))"
proof -
  note st = assms(1-3)
  have c1: "plp_mat_sub_stride_i16s_xpulpv2_unroll srcA srcB M N strideA strideB strideY dst
           = plp_mat_sub_stride_i16s_rv32im_plain srcA srcB M N strideA strideB strideY dst"
    by (simp only: sub_i16s_xpulpv2_unroll_rows [OF st] sub_i16s_rv32im_plain_rows [OF st])
  have c1': "plp_mat_sub_stride_i16s_xpulpv2_plain srcA srcB M N strideA strideB strideY dst
           = plp_mat_sub_stride_i16s_rv32im_plain srcA srcB M N strideA strideB strideY dst"
    by (simp only: sub_i16s_xpulpv2_plain_rows [OF st] sub_i16s_rv32im_plain_rows [OF st])
  have c2: "plp_mat_sub_stride_i16s_xpulpv2_unroll srcA srcB M N strideA strideB strideY dst
           = ref_mat_op c_sub srcA srcB M N strideA strideB strideY dst"
    by (simp only: sub_i16s_xpulpv2_unroll_ref [OF st] c_sub_fun)
  have c3: "\<forall>m n. m < M \<and> n < N \<longrightarrow>
          plp_mat_sub_stride_i16s_xpulpv2_unroll srcA srcB M N strideA strideB strideY dst (m * strideY + n)
            = c_sub (srcA (m * strideA + n)) (srcB (m * strideB + n))
        \<and> uint (plp_mat_sub_stride_i16s_xpulpv2_unroll srcA srcB M N strideA strideB strideY dst (m * strideY + n))
            = (uint (srcA (m * strideA + n)) - uint (srcB (m * strideB + n))) mod 2 ^ 16"
  proof (intro allI impI)
    fix m n assume "m < M \<and> n < N"
    then have h: "m < M" "n < N" by simp_all
    have e: "plp_mat_sub_stride_i16s_xpulpv2_unroll srcA srcB M N strideA strideB strideY dst (m * strideY + n)
            = c_sub (srcA (m * strideA + n)) (srcB (m * strideB + n))"
      by (simp only: sub_i16s_xpulpv2_unroll_at [OF st h] c_sub_eq)
    show "plp_mat_sub_stride_i16s_xpulpv2_unroll srcA srcB M N strideA strideB strideY dst (m * strideY + n)
            = c_sub (srcA (m * strideA + n)) (srcB (m * strideB + n))
        \<and> uint (plp_mat_sub_stride_i16s_xpulpv2_unroll srcA srcB M N strideA strideB strideY dst (m * strideY + n))
            = (uint (srcA (m * strideA + n)) - uint (srcB (m * strideB + n))) mod 2 ^ 16"
      unfolding e using uint_c_sub [of "srcA (m * strideA + n)" "srcB (m * strideB + n)"] by simp
  qed
  have c4: "run_cores (\<lambda>p d. plp_mat_add_stride_i16p_xpulpv2
                          (add_args srcA srcB M N strideA strideB strideY nPE d) p) nPE dst
           = Some (ref_mat_op c_add srcA srcB M N strideA strideB strideY dst)"
    by (simp only: add_i16p_all [OF assms(4) st] ref_mat_op_rows c_add_eq)
  have c6: "run_cores (\<lambda>p d. plp_mat_add_stride_i8p_xpulpv2
                          (add_args srcA8 srcB8 M N strideA strideB strideY nPE d) p) nPE dst8
           = Some (ref_mat_op c_add srcA8 srcB8 M N strideA strideB strideY dst8)"
    by (simp only: add_i8p_all [OF assms(4) st] ref_mat_op_rows c_add_eq)
  have sh: "\<forall>m n. m < M \<and> m mod nPE = core_id \<and> n < N
            \<longrightarrow> pe_fill f M N strideY nPE core_id mem (m * strideY + n) = f m n"
    for f :: "nat \<Rightarrow> nat \<Rightarrow> 'v" and mem
    using pe_share [OF assms(4,5,3), of M f mem] by (rule conjunct1)
  have c5: "\<exists>d. plp_mat_add_stride_i16p_xpulpv2
               (add_args srcA srcB M N strideA strideB strideY nPE dst) core_id = Some (pe_return d)
          \<and> (\<forall>m n. m < M \<and> m mod nPE = core_id \<and> n < N \<longrightarrow>
                d (m * strideY + n) = c_add (srcA (m * strideA + n)) (srcB (m * strideB + n))
              \<and> uint (d (m * strideY + n))
                  = (uint (srcA (m * strideA + n)) + uint (srcB (m * strideB + n))) mod 2 ^ 16)"
    apply (rule exI [of _ "pe_fill (\<lambda>m n. srcA (m * strideA + n) + srcB (m * strideB + n))
        M N strideY nPE core_id dst"])
    apply (rule conjI)
     apply (rule add_i16p_call [OF assms(4) st])
    using sh [of "\<lambda>m n. srcA (m * strideA + n) + srcB (m * strideB + n)" dst]
    apply (simp add: c_add_eq uint_word_ariths)
    done
  have c7: "\<exists>d. plp_mat_add_stride_i8p_xpulpv2
               (add_args srcA8 srcB8 M N strideA strideB strideY nPE dst8) core_id = Some (pe_return d)
          \<and> (\<forall>m n. m < M \<and> m mod nPE = core_id \<and> n < N \<longrightarrow>
                d (m * strideY + n) = c_add (srcA8 (m * strideA + n)) (srcB8 (m * strideB + n))
              \<and> uint (d (m * strideY + n))
                  = (uint (srcA8 (m * strideA + n)) + uint (srcB8 (m * strideB + n))) mod 2 ^ 8)"
    apply (rule exI [of _ "pe_fill (\<lambda>m n. srcA8 (m * strideA + n) + srcB8 (m * strideB + n))
        M N strideY nPE core_id dst8"])
    apply (rule conjI)
     apply (rule add_i8p_call [OF assms(4) st])
    using sh [of "\<lambda>m n. srcA8 (m * strideA + n) + srcB8 (m * strideB + n)" dst8]
    apply (simp add: c_add_eq uint_word_ariths)
    done
  show ?thesis by (intro conjI c1 c1' c2 c3 c4 c5 c6 c7)
qed

theorem packed_kernels_wrap_witness:
  "(2::nat) \<le> 2 \<and> (4::nat) \<le> 4 \<and> (0::nat) < 1
   \<and> plp_mat_sub_stride_i16s_xpulpv2_unroll (\<lambda>i. 0) (\<lambda>i. if i = 0 then 1 else 0) 1 2 2 2 2 (\<lambda>i. 7) 0
       = 0xFFFF
   \<and> plp_mat_sub_stride_i16s_xpulpv2_unroll (\<lambda>i. 0) (\<lambda>i. if i = 0 then 1 else 0) 1 2 2 2 2 (\<lambda>i. 7) 1
       = 0
   \<and> (\<exists>d. plp_mat_add_stride_i16p_xpulpv2
             (add_args (\<lambda>i. if i = 0 then 0x7FFF else 0xFFFF) (\<lambda>i. 1) 1 2 2 2 2 1 (\<lambda>i. 7)) 0
             = Some (pe_return d)
         \<and> d 0 = 0x8000 \<and> d 1 = 0)
   \<and> (\<exists>d. plp_mat_add_stride_i8p_xpulpv2
             (add_args (\<lambda>i. if i = 2 then 0x7F else 0xFF) (\<lambda>i. 1) 1 4 4 4 4 1 (\<lambda>i. 7)) 0
             = Some (pe_return d)
         \<and> d 0 = 0 \<and> d 1 = 0 \<and> d 2 = 0x80 \<and> d 3 = 0)"
proof -
  have h2: "(2::nat) \<le> 2" and h4: "(4::nat) \<le> 4" and h1: "(0::nat) < 1" by simp_all
  note S = packed_kernels_wrap [OF h2 h2 h2 h1 h1, where M = 1
      and srcA = "\<lambda>i. 0" and srcB = "\<lambda>i. if i = 0 then 1 else 0" and dst = "\<lambda>i. 7"
      and ?srcA8.0 = "\<lambda>i. 0" and ?srcB8.0 = "\<lambda>i. 0" and ?dst8.0 = "\<lambda>i. 0"]
  note A = packed_kernels_wrap [OF h2 h2 h2 h1 h1, where M = 1
      and srcA = "\<lambda>i. if i = 0 then 0x7FFF else 0xFFFF" and srcB = "\<lambda>i. 1" and dst = "\<lambda>i. 7"
      and ?srcA8.0 = "\<lambda>i. 0" and ?srcB8.0 = "\<lambda>i. 0" and ?dst8.0 = "\<lambda>i. 0"]
  note B = packed_kernels_wrap [OF h4 h4 h4 h1 h1, where M = 1
      and srcA = "\<lambda>i. 0" and srcB = "\<lambda>i. 0" and dst = "\<lambda>i. 0"
      and ?srcA8.0 = "\<lambda>i. if i = 2 then 0x7F else 0xFF" and ?srcB8.0 = "\<lambda>i. 1" and ?dst8.0 = "\<lambda>i. 7"]
  note S3 = S [THEN conjunct2, THEN conjunct2, THEN conjunct2, THEN conjunct1, rule_format]
  note A5 = A [THEN conjunct2, THEN conjunct2, THEN conjunct2, THEN conjunct2, THEN conjunct2,
      THEN conjunct1]
  note B7 = B [THEN conjunct2, THEN conjunct2, THEN conjunct2, THEN conjunct2, THEN conjunct2,
      THEN conjunct2, THEN conjunct2]
  have s0: "plp_mat_sub_stride_i16s_xpulpv2_unroll (\<lambda>i. 0) (\<lambda>i. if i = 0 then 1 else 0) 1 2 2 2 2 (\<lambda>i. 7) 0
       = 0xFFFF"
    using S3 [of 0 0, THEN conjunct1] by (simp add: c_sub_eq)
  have s1: "plp_mat_sub_stride_i16s_xpulpv2_unroll (\<lambda>i. 0) (\<lambda>i. if i = 0 then 1 else 0) 1 2 2 2 2 (\<lambda>i. 7) 1
       = 0"
    using S3 [of 0 1, THEN conjunct1] by (simp add: c_sub_eq)
  from A5 obtain d where d: "plp_mat_add_stride_i16p_xpulpv2
             (add_args (\<lambda>i. if i = 0 then 0x7FFF else 0xFFFF) (\<lambda>i. 1) 1 2 2 2 2 1 (\<lambda>i. 7)) 0
             = Some (pe_return d)"
    and dv: "\<forall>m n. m < 1 \<and> m mod 1 = 0 \<and> n < 2 \<longrightarrow>
        d (m * 2 + n) = c_add (if m * 2 + n = 0 then 0x7FFF else 0xFFFF) 1
        \<and> uint (d (m * 2 + n)) = (uint (if m * 2 + n = 0 then 0x7FFF else 0xFFFF :: 16 word) + uint (1 :: 16 word)) mod 2 ^ 16"
    by (elim exE conjE) blast
  have a: "\<exists>d. plp_mat_add_stride_i16p_xpulpv2
             (add_args (\<lambda>i. if i = 0 then 0x7FFF else 0xFFFF) (\<lambda>i. 1) 1 2 2 2 2 1 (\<lambda>i. 7)) 0
             = Some (pe_return d)
         \<and> d 0 = 0x8000 \<and> d 1 = 0"
  proof -
    have 0: "d 0 = 0x8000" using dv [rule_format, of 0 0, THEN conjunct1] by (simp add: c_add_eq)
    have 1: "d 1 = 0" using dv [rule_format, of 0 1, THEN conjunct1] by (simp add: c_add_eq)
    from d 0 1 show ?thesis by (intro exI [of _ d] conjI)
  qed
  from B7 obtain d8 where d8: "plp_mat_add_stride_i8p_xpulpv2
             (add_args (\<lambda>i. if i = 2 then 0x7F else 0xFF) (\<lambda>i. 1) 1 4 4 4 4 1 (\<lambda>i. 7)) 0
             = Some (pe_return d8)"
    and dv8: "\<forall>m n. m < 1 \<and> m mod 1 = 0 \<and> n < 4 \<longrightarrow>
        d8 (m * 4 + n) = c_add (if m * 4 + n = 2 then 0x7F else 0xFF) 1
        \<and> uint (d8 (m * 4 + n)) = (uint (if m * 4 + n = 2 then 0x7F else 0xFF :: 8 word) + uint (1 :: 8 word)) mod 2 ^ 8"
    by (elim exE conjE) blast
  have b: "\<exists>d. plp_mat_add_stride_i8p_xpulpv2
             (add_args (\<lambda>i. if i = 2 then 0x7F else 0xFF) (\<lambda>i. 1) 1 4 4 4 4 1 (\<lambda>i. 7)) 0
             = Some (pe_return d)
         \<and> d 0 = 0 \<and> d 1 = 0 \<and> d 2 = 0x80 \<and> d 3 = 0"
  proof -
    have 0: "d8 0 = 0" using dv8 [rule_format, of 0 0, THEN conjunct1] by (simp add: c_add_eq)
    have 1: "d8 1 = 0" using dv8 [rule_format, of 0 1, THEN conjunct1] by (simp add: c_add_eq)
    have 2: "d8 2 = 0x80" using dv8 [rule_format, of 0 2, THEN conjunct1]
      by (simp add: c_add_eq numeral_2_eq_2)
    have 3: "d8 3 = 0" using dv8 [rule_format, of 0 3, THEN conjunct1] by (simp add: c_add_eq)
    from d8 0 1 2 3 show ?thesis by (intro exI [of _ d8] conjI)
  qed
  from h2 h4 h1 s0 s1 a b show ?thesis by (intro conjI)
qed

text \<open>
  Claim C6: for every input that is at most zero (either zero, every negative value,
  minus infinity) the square-root kernel writes exactly \<open>0.0\<close> through \<open>pRes\<close>; the value
  written is the literal \<open>0.f\<close> of the second branch, so it is not a NaN, and the kernel
  is a total function of its input.
\<close>

theorem sqrt_nonpositive_is_zero:
  assumes "f32_le pSrc zero_f"
  shows "plp_sqrt_f32s_xpulpv2 pSrc = zero_f"
  using half_not_positive [OF assms] by (simp add: plp_sqrt_f32s_xpulpv2_def Let_def)

theorem sqrt_nonpositive_is_zero_witness:
  "f32_le (Finite True 4 0) zero_f
   \<and> plp_sqrt_f32s_xpulpv2 (Finite True 4 0) = zero_f
   \<and> f32_le zero_f zero_f
   \<and> plp_sqrt_f32s_xpulpv2 zero_f = zero_f"
  using sqrt_nonpositive_is_zero [of "Finite True 4 0"] sqrt_nonpositive_is_zero [of zero_f]
  by (simp add: with_sign_def num_of_def den_of_def)

text \<open>
  Claim C7: for a positive input \<open>x\<close> the square-root kernel returns \<open>x\<close> times the result
  of 15 steps \<open>y \<leftarrow> y * (1.5 - y * y * (x / 2))\<close> started from \<open>1 / (2 * x)\<close>, and this is
  within a relative error of \<open>10\<^sup>-\<^sup>5\<close> of the square root of \<open>x\<close> for every \<open>x\<close> from
  \<open>10\<^sup>-\<^sup>6\<close> to \<open>10\<^sup>6\<close>. At \<open>x = 1000000\<close> the kernel does return \<open>x\<close> times the result of
  the 15 steps, and that is \<open>14167626 * 2\<^sup>-\<^sup>1\<^sup>6\<close>, about 216.18, where the square root is 1000: the
  seed \<open>1 / (2 * x)\<close> is so far below \<open>1 / sqrt x\<close> that 15 steps, each of which multiplies
  the estimate by less than 1.5, do not reach it.
\<close>

theorem sqrt_of_million_is_216:
  "plp_sqrt_f32s_xpulpv2 (Finite False 1000000 0)
     = f32_mul ((newton_step (f32_div (Finite False 1000000 0) two_f) ^^ 15)
         (f32_div one_f (f32_mul two_f (Finite False 1000000 0))))
         (Finite False 1000000 0)
   \<and> plp_sqrt_f32s_xpulpv2 (Finite False 1000000 0) = Finite False 14167626 (- 16)
   \<and> valof (Finite False 1000000 0) = 1000000
   \<and> valof (plp_sqrt_f32s_xpulpv2 (Finite False 1000000 0)) < 217
   \<and> sqrt (valof (Finite False 1000000 0)) / 100000
       < \<bar>valof (plp_sqrt_f32s_xpulpv2 (Finite False 1000000 0))
           - sqrt (valof (Finite False 1000000 0))\<bar>"
proof -
  have a: "plp_sqrt_f32s_xpulpv2 (Finite False 1000000 0)
     = f32_mul ((newton_step (f32_div (Finite False 1000000 0) two_f) ^^ numIters)
         (f32_div one_f (f32_mul two_f (Finite False 1000000 0))))
         (Finite False 1000000 0)"
    unfolding plp_sqrt_f32s_xpulpv2_def Let_def
    using half_of_million_positive by (simp only: if_True)
  have b: "plp_sqrt_f32s_xpulpv2 (Finite False 1000000 0) = Finite False 14167626 (- 16)"
    unfolding a by (rule sqrt_of_million_value)
  have c: "valof (Finite False 1000000 0) = 1000000"
    by (simp add: num_of_def den_of_def)
  have d: "valof (Finite False 14167626 (- 16)) = 14167626 / 65536"
    by (simp add: num_of_def den_of_def)
  have e: "plp_sqrt_f32s_xpulpv2 (Finite False 1000000 0)
     = f32_mul ((newton_step (f32_div (Finite False 1000000 0) two_f) ^^ 15)
         (f32_div one_f (f32_mul two_f (Finite False 1000000 0))))
         (Finite False 1000000 0)"
    using a by (simp only: numIters_def)
  have f: "valof (plp_sqrt_f32s_xpulpv2 (Finite False 1000000 0)) < 217
    \<and> sqrt (valof (Finite False 1000000 0)) / 100000
       < \<bar>valof (plp_sqrt_f32s_xpulpv2 (Finite False 1000000 0))
           - sqrt (valof (Finite False 1000000 0))\<bar>"
    unfolding b c d sqrt_million by simp
  from e b c f show ?thesis by (intro conjI) (simp_all only:)
qed



text \<open>
  Claim C9: the parallel transposed matrix multiplication goes through exactly one
  barrier, after all the output writes of the call, so that no processing element
  returns before all rows are complete; the parallel elementwise kernels return
  without a barrier. For every schedule of the team of \<open>nPE\<close> calls: when one
  processing element has returned, every one has left its row loop, every cell of the
  \<open>M\<close> by \<open>O\<close> product holds its dot product, the destination is what the calls give one
  after the other, and that processing element has left exactly one barrier behind;
  before its return it has left none; a processing element that has reached the barrier
  has written all its rows; and the schedule can be continued until every processing
  element has returned. One call alone returns with one barrier on record, met with the
  destination as returned. A call of a parallel elementwise kernel returns with no
  barrier on record.
\<close>

theorem barrier_after_all_rows:
  fixes A16 B16 D16 :: "16 buf" and A8 B8 D8 :: "8 buf"
  assumes "0 < mm_nPE args" "core_id < mm_nPE args"
  shows "(\<forall>p<mm_nPE args. team_pc (team_run args sched) p = Returned \<longrightarrow>
        (\<forall>q<mm_nPE args. arrived (team_pc (team_run args sched) q))
      \<and> (\<forall>m k. m < mm_M args \<and> k < mm_O args \<longrightarrow>
            team_dstC (team_run args sched) (m * mm_O args + k)
              = (\<Sum>n<mm_N args. (word_of_int (sint (mm_pSrcA args (m * mm_N args + n))
                                    * sint (mm_pSrcB args (k * mm_N args + n))) :: 32 word)))
      \<and> run_cores (\<lambda>p d. plp_mat_mult_trans_i16vp_xpulpv2 (args\<lparr>mm_pDstC := d\<rparr>) p) (mm_nPE args)
            (mm_pDstC args) = Some (team_dstC (team_run args sched))
      \<and> team_barriers (team_run args sched) p = 1)
    \<and> (\<forall>p<mm_nPE args. team_pc (team_run args sched) p \<noteq> Returned \<longrightarrow>
          team_barriers (team_run args sched) p = 0)
    \<and> (\<forall>p<mm_nPE args. arrived (team_pc (team_run args sched) p) \<longrightarrow>
          (\<forall>m k. m < mm_M args \<and> m mod mm_nPE args = p \<and> k < mm_O args \<longrightarrow>
            team_dstC (team_run args sched) (m * mm_O args + k)
              = (\<Sum>n<mm_N args. (word_of_int (sint (mm_pSrcA args (m * mm_N args + n))
                                    * sint (mm_pSrcB args (k * mm_N args + n))) :: 32 word))))
    \<and> (\<exists>sched'. \<forall>p<mm_nPE args. team_pc (team_run args (sched @ sched')) p = Returned)
    \<and> (\<exists>d. plp_mat_mult_trans_i16vp_xpulpv2 args core_id = Some \<lparr>pe_dst = d, pe_barriers = [d]\<rparr>
          \<and> (\<forall>m k. m < mm_M args \<and> m mod mm_nPE args = core_id \<and> k < mm_O args \<longrightarrow>
                d (m * mm_O args + k)
                  = (\<Sum>n<mm_N args. (word_of_int (sint (mm_pSrcA args (m * mm_N args + n))
                                        * sint (mm_pSrcB args (k * mm_N args + n))) :: 32 word))))
    \<and> (\<exists>s. plp_mat_add_stride_i16p_xpulpv2
              (add_args A16 B16 M N strideA strideB strideY (mm_nPE args) D16) core_id = Some s
          \<and> pe_barriers s = [])
    \<and> (\<exists>s. plp_mat_add_stride_i8p_xpulpv2
              (add_args A8 B8 M N strideA strideB strideY (mm_nPE args) D8) core_id = Some s
          \<and> pe_barriers s = [])
    \<and> (\<exists>s. plp_mat_copy_stride_i16p_xpulpv2
              (cpy_args A16 M N strideA strideY (mm_nPE args) D16) core_id = Some s
          \<and> pe_barriers s = [])
    \<and> (\<exists>s. plp_mat_copy_stride_i8p_xpulpv2
              (cpy_args A8 M N strideA strideY (mm_nPE args) D8) core_id = Some s
          \<and> pe_barriers s = [])"
proof -
  let ?t = "team_run args sched"
  let ?dot = "dot_i16 (mm_pSrcA args) (mm_pSrcB args) (mm_N args)"
  note n = assms(1)
  have dot: "?dot m k = (\<Sum>n<mm_N args. (word_of_int (sint (mm_pSrcA args (m * mm_N args + n))
                                    * sint (mm_pSrcB args (k * mm_N args + n))) :: 32 word))" for m k
    by (simp add: dot_i16_def mul_i16_def)
  have c1: "\<forall>p<mm_nPE args. team_pc ?t p = Returned \<longrightarrow>
        (\<forall>q<mm_nPE args. arrived (team_pc ?t q))
      \<and> (\<forall>m k. m < mm_M args \<and> k < mm_O args \<longrightarrow> team_dstC ?t (m * mm_O args + k) = ?dot m k)
      \<and> run_cores (\<lambda>p d. plp_mat_mult_trans_i16vp_xpulpv2 (args\<lparr>mm_pDstC := d\<rparr>) p) (mm_nPE args)
            (mm_pDstC args) = Some (team_dstC ?t)
      \<and> team_barriers ?t p = 1"
  proof (intro allI impI)
    fix p
    assume p: "p < mm_nPE args" and r: "team_pc ?t p = Returned"
    from run_returned [of args sched] p r have a: "all_arrived (mm_nPE args) ?t" by blast
    have 1: "\<forall>q<mm_nPE args. arrived (team_pc ?t q)" using a by (simp add: all_arrived_iff)
    have 2: "\<forall>m k. m < mm_M args \<and> k < mm_O args \<longrightarrow> team_dstC ?t (m * mm_O args + k) = ?dot m k"
      by (simp add: run_complete [OF n a] mat_fill_at)
    have 3: "run_cores (\<lambda>p d. plp_mat_mult_trans_i16vp_xpulpv2 (args\<lparr>mm_pDstC := d\<rparr>) p) (mm_nPE args)
            (mm_pDstC args) = Some (team_dstC ?t)"
      by (simp only: mult_trans_all [OF n] run_complete [OF n a])
    have 4: "team_barriers ?t p = 1" using run_barriers [of args sched] p r by simp
    from 1 2 3 4 show "(\<forall>q<mm_nPE args. arrived (team_pc ?t q))
      \<and> (\<forall>m k. m < mm_M args \<and> k < mm_O args \<longrightarrow> team_dstC ?t (m * mm_O args + k) = ?dot m k)
      \<and> run_cores (\<lambda>p d. plp_mat_mult_trans_i16vp_xpulpv2 (args\<lparr>mm_pDstC := d\<rparr>) p) (mm_nPE args)
            (mm_pDstC args) = Some (team_dstC ?t)
      \<and> team_barriers ?t p = 1" by (intro conjI)
  qed
  have c2: "\<forall>p<mm_nPE args. team_pc ?t p \<noteq> Returned \<longrightarrow> team_barriers ?t p = 0"
    using run_barriers [of args sched] by simp
  have c3: "\<forall>p<mm_nPE args. arrived (team_pc ?t p) \<longrightarrow>
          (\<forall>m k. m < mm_M args \<and> m mod mm_nPE args = p \<and> k < mm_O args \<longrightarrow>
            team_dstC ?t (m * mm_O args + k) = ?dot m k)"
  proof (intro allI impI)
    fix p m k
    assume "p < mm_nPE args" "arrived (team_pc ?t p)"
      and h: "m < mm_M args \<and> m mod mm_nPE args = p \<and> k < mm_O args"
    then have "row_done (mm_nPE args) ?t m" by (intro arrived_done) simp
    with run_rows [OF n, of sched] h show "team_dstC ?t (m * mm_O args + k) = ?dot m k" by blast
  qed
  have c4: "\<exists>sched'. \<forall>p<mm_nPE args. team_pc (team_run args (sched @ sched')) p = Returned"
    using team_returns [OF n, of ?t] by (simp add: team_run_def)
  have c5: "\<exists>d. plp_mat_mult_trans_i16vp_xpulpv2 args core_id = Some \<lparr>pe_dst = d, pe_barriers = [d]\<rparr>
          \<and> (\<forall>m k. m < mm_M args \<and> m mod mm_nPE args = core_id \<and> k < mm_O args \<longrightarrow>
                d (m * mm_O args + k) = ?dot m k)"
  proof -
    let ?d = "pe_fill ?dot (mm_M args) (mm_O args) (mm_O args) (mm_nPE args) core_id (mm_pDstC args)"
    have e: "plp_mat_mult_trans_i16vp_xpulpv2 args core_id = Some \<lparr>pe_dst = ?d, pe_barriers = [?d]\<rparr>"
      using mult_trans_rows [OF n, of core_id] by (simp add: rt_team_barrier_def pe_return_def)
    from pe_share [OF assms, of "mm_O args" "mm_O args" "mm_M args" ?dot "mm_pDstC args"]
    have "\<forall>m k. m < mm_M args \<and> m mod mm_nPE args = core_id \<and> k < mm_O args
            \<longrightarrow> ?d (m * mm_O args + k) = ?dot m k"
      by blast
    with e show ?thesis by blast
  qed
  have c6: "\<exists>s. plp_mat_add_stride_i16p_xpulpv2
              (add_args A16 B16 M N strideA strideB strideY (mm_nPE args) D16) core_id = Some s
          \<and> pe_barriers s = []"
    unfolding plp_mat_add_stride_i16p_xpulpv2_def Let_def
    by (rule returns_without_barrier) (intro if_returns for_rows_returns, simp_all add: n)
  have c7: "\<exists>s. plp_mat_add_stride_i8p_xpulpv2
              (add_args A8 B8 M N strideA strideB strideY (mm_nPE args) D8) core_id = Some s
          \<and> pe_barriers s = []"
    unfolding plp_mat_add_stride_i8p_xpulpv2_def Let_def
    by (rule returns_without_barrier) (intro if_returns for_rows_returns, simp_all add: n)
  have c8: "\<exists>s. plp_mat_copy_stride_i16p_xpulpv2
              (cpy_args A16 M N strideA strideY (mm_nPE args) D16) core_id = Some s
          \<and> pe_barriers s = []"
    unfolding plp_mat_copy_stride_i16p_xpulpv2_def Let_def
    by (rule returns_without_barrier) (intro if_returns for_rows_returns, simp_all add: n)
  have c9: "\<exists>s. plp_mat_copy_stride_i8p_xpulpv2
              (cpy_args A8 M N strideA strideY (mm_nPE args) D8) core_id = Some s
          \<and> pe_barriers s = []"
    unfolding plp_mat_copy_stride_i8p_xpulpv2_def Let_def
    by (rule returns_without_barrier) (intro if_returns for_rows_returns, simp_all add: n)
  show ?thesis
    unfolding dot [symmetric] by (intro conjI c1 c2 c3 c4 c5 c6 c7 c8 c9)
qed

theorem barrier_after_all_rows_witness:
  "(0::nat) < 2 \<and> (1::nat) < 2
   \<and> team_pc (team_run (mm_args (\<lambda>i. 2) (\<lambda>i. 3) 3 2 2 2 (\<lambda>i. 0)) [0, 0, 0, 1, 1, 0]) 0 = Returned
   \<and> team_pc (team_run (mm_args (\<lambda>i. 2) (\<lambda>i. 3) 3 2 2 2 (\<lambda>i. 0)) [0, 0, 0, 1, 1, 0]) 1 = At_barrier
   \<and> team_dstC (team_run (mm_args (\<lambda>i. 2) (\<lambda>i. 3) 3 2 2 2 (\<lambda>i. 0)) [0, 0, 0, 1, 1, 0]) (1 * 2 + 0) = 12
   \<and> team_dstC (team_run (mm_args (\<lambda>i. 2) (\<lambda>i. 3) 3 2 2 2 (\<lambda>i. 0)) [0, 0, 0, 1, 1, 0]) (2 * 2 + 1) = 12
   \<and> team_barriers (team_run (mm_args (\<lambda>i. 2) (\<lambda>i. 3) 3 2 2 2 (\<lambda>i. 0)) [0, 0, 0, 1, 1, 0]) 0 = 1
   \<and> team_barriers (team_run (mm_args (\<lambda>i. 2) (\<lambda>i. 3) 3 2 2 2 (\<lambda>i. 0)) [0, 0, 0, 1, 1, 0]) 1 = 0
   \<and> (\<exists>sched'. \<forall>p<2. team_pc (team_run (mm_args (\<lambda>i. 2) (\<lambda>i. 3) 3 2 2 2 (\<lambda>i. 0))
                                    ([0, 0, 0, 1, 1, 0] @ sched')) p = Returned)
   \<and> (\<exists>d. plp_mat_mult_trans_i16vp_xpulpv2 (mm_args (\<lambda>i. 2) (\<lambda>i. 3) 3 2 2 2 (\<lambda>i. 0)) 1
             = Some \<lparr>pe_dst = d, pe_barriers = [d]\<rparr>)
   \<and> (\<exists>s. plp_mat_add_stride_i16p_xpulpv2 (add_args (\<lambda>i. 4) (\<lambda>i. 1) 2 3 3 4 5 2 (\<lambda>i. 0)) 1 = Some s
         \<and> pe_barriers s = [])
   \<and> (\<exists>s. plp_mat_copy_stride_i8p_xpulpv2 (cpy_args (\<lambda>i. 4) 2 3 3 5 2 (\<lambda>i. 0)) 1 = Some s
         \<and> pe_barriers s = [])"
proof -
  let ?args = "mm_args (\<lambda>i. 2) (\<lambda>i. 3) 3 2 2 2 (\<lambda>i. 0)"
  let ?t = "team_run ?args [0, 0, 0, 1, 1, 0]"
  have h: "0 < mm_nPE ?args" "1 < mm_nPE ?args" by simp_all
  have n: "(0::nat) < 2" "(1::nat) < 2" by simp_all
  have pc0: "team_pc ?t 0 = Returned"
    by (simp add: team_run_def team_start_def mult_trans_step_def all_arrived_def upt_2)
  have pc1: "team_pc ?t 1 = At_barrier"
    by (simp add: team_run_def team_start_def mult_trans_step_def all_arrived_def upt_2)
  have s: "(\<Sum>n<(2::nat). (word_of_int (sint (2::16 word) * sint (3::16 word)) :: 32 word)) = 12"
    by simp
  note T = barrier_after_all_rows [OF h, where sched = "[0, 0, 0, 1, 1, 0]"
      and ?A16.0 = "\<lambda>i. 4" and ?B16.0 = "\<lambda>i. 1" and ?D16.0 = "\<lambda>i. 0"
      and ?A8.0 = "\<lambda>i. 4" and ?B8.0 = "\<lambda>i. 1" and ?D8.0 = "\<lambda>i. 0"
      and M = 2 and N = 3 and strideA = 3 and strideB = 4 and strideY = 5]
  note T1 = T [THEN conjunct1, rule_format, OF h(1) pc0]
  note T2 = T [THEN conjunct2, THEN conjunct1, rule_format, OF h(2)]
  note T4 = T [THEN conjunct2, THEN conjunct2, THEN conjunct2, THEN conjunct1]
  note T5 = T [THEN conjunct2, THEN conjunct2, THEN conjunct2, THEN conjunct2, THEN conjunct1]
  note T6 = T [THEN conjunct2, THEN conjunct2, THEN conjunct2, THEN conjunct2, THEN conjunct2,
      THEN conjunct1]
  note T9 = T [THEN conjunct2, THEN conjunct2, THEN conjunct2, THEN conjunct2, THEN conjunct2,
      THEN conjunct2, THEN conjunct2, THEN conjunct2]
  have d: "team_dstC ?t (m * 2 + k) = 12" if "m < 3" "k < 2" for m k
    using T1 [THEN conjunct2, THEN conjunct1, rule_format, of m k] that by (simp add: s)
  have b0: "team_barriers ?t 0 = 1"
    using T1 [THEN conjunct2, THEN conjunct2, THEN conjunct2] .
  have b1: "team_barriers ?t 1 = 0" using T2 pc1 by simp
  have r: "\<exists>sched'. \<forall>p<2. team_pc (team_run ?args ([0, 0, 0, 1, 1, 0] @ sched')) p = Returned"
    using T4 by simp
  have c: "\<exists>d. plp_mat_mult_trans_i16vp_xpulpv2 ?args 1 = Some \<lparr>pe_dst = d, pe_barriers = [d]\<rparr>"
    using T5 by blast
  have a: "\<exists>s. plp_mat_add_stride_i16p_xpulpv2 (add_args (\<lambda>i. 4) (\<lambda>i. 1) 2 3 3 4 5 2 (\<lambda>i. 0)) 1 = Some s
         \<and> pe_barriers s = []"
    using T6 by simp
  have e: "\<exists>s. plp_mat_copy_stride_i8p_xpulpv2 (cpy_args (\<lambda>i. 4) 2 3 3 5 2 (\<lambda>i. 0)) 1 = Some s
         \<and> pe_barriers s = []"
    using T9 by simp
  from n pc0 pc1 d [of 1 0] d [of 2 1] b0 b1 r c a e show ?thesis by (intro conjI) simp_all
qed

text \<open>
  Claim C10: for a core id below \<open>nPE\<close>, every \<open>m < M\<close> with \<open>m mod nPE = core_id\<close> and
  every column \<open>k\<close> below \<open>O\<close>, the parallel transposed matrix multiplication stores into
  \<open>pDstC[m*O + k]\<close> the dot product of row \<open>m\<close> of \<open>pSrcA\<close> with row \<open>k\<close> of
  \<open>pSrcB\<close>, the sum over \<open>n < N\<close> of \<open>pSrcA[m*N + n] * pSrcB[k*N + n]\<close> in 32-bit
  wrap-around arithmetic, and leaves every other cell of \<open>pDstC\<close> as it was.
\<close>

theorem mult_trans_rows_of_core:
  assumes "0 < nPE" "core_id < nPE"
  shows "\<exists>d. plp_mat_mult_trans_i16vp_xpulpv2 (mm_args srcA srcB M N O' nPE dstC) core_id
              = Some \<lparr>pe_dst = d, pe_barriers = [d]\<rparr>
          \<and> (\<forall>m k. m < M \<and> m mod nPE = core_id \<and> k < O'
                \<longrightarrow> d (m * O' + k)
                    = (\<Sum>n<N. (word_of_int (sint (srcA (m * N + n)) * sint (srcB (k * N + n))) :: 32 word)))
          \<and> (\<forall>i. (\<forall>m k. m < M \<and> m mod nPE = core_id \<and> k < O' \<longrightarrow> i \<noteq> m * O' + k)
                \<longrightarrow> d i = dstC i)"
proof -
  have e: "plp_mat_mult_trans_i16vp_xpulpv2 (mm_args srcA srcB M N O' nPE dstC) core_id
      = Some \<lparr>pe_dst = pe_fill (dot_i16 srcA srcB N) M O' O' nPE core_id dstC,
              pe_barriers = [pe_fill (dot_i16 srcA srcB N) M O' O' nPE core_id dstC]\<rparr>"
    using mult_trans_rows [of "mm_args srcA srcB M N O' nPE dstC" core_id] assms(1)
    by (simp add: rt_team_barrier_def pe_return_def)
  have d: "dot_i16 srcA srcB N m k
      = (\<Sum>n<N. (word_of_int (sint (srcA (m * N + n)) * sint (srcB (k * N + n))) :: 32 word))" for m k
    by (simp add: dot_i16_def mul_i16_def)
  let ?d = "pe_fill (dot_i16 srcA srcB N) M O' O' nPE core_id dstC"
  from pe_share [OF assms, of O' O' M "dot_i16 srcA srcB N" dstC]
  have a: "\<forall>m k. m < M \<and> m mod nPE = core_id \<and> k < O' \<longrightarrow> ?d (m * O' + k) = dot_i16 srcA srcB N m k"
    and b: "\<forall>i. (\<forall>m k. m < M \<and> m mod nPE = core_id \<and> k < O' \<longrightarrow> i \<noteq> m * O' + k) \<longrightarrow> ?d i = dstC i"
    by blast+
  show ?thesis
    by (rule exI [of _ ?d]) (use a b e in \<open>simp add: d\<close>)
qed

theorem mult_trans_rows_of_core_witness:
  "(0::nat) < 2 \<and> (1::nat) < 2
   \<and> (\<exists>d. plp_mat_mult_trans_i16vp_xpulpv2 (mm_args (\<lambda>i. 2) (\<lambda>i. 3) 3 2 2 2 (\<lambda>i. 0)) 1
             = Some \<lparr>pe_dst = d, pe_barriers = [d]\<rparr>
          \<and> d (1 * 2 + 0) = 12 \<and> d (1 * 2 + 1) = 12)"
proof -
  have h: "(0::nat) < 2" "(1::nat) < 2" by simp_all
  from mult_trans_rows_of_core [OF h, where srcA = "\<lambda>i. 2" and srcB = "\<lambda>i. 3" and M = 3 and N = 2
      and O' = 2 and dstC = "\<lambda>i. 0"]
  obtain d where d: "plp_mat_mult_trans_i16vp_xpulpv2 (mm_args (\<lambda>i. 2) (\<lambda>i. 3) 3 2 2 2 (\<lambda>i. 0)) 1
             = Some \<lparr>pe_dst = d, pe_barriers = [d]\<rparr>"
    and v: "\<And>m k. m < 3 \<Longrightarrow> m mod 2 = 1 \<Longrightarrow> k < 2 \<Longrightarrow>
        d (m * 2 + k) = (\<Sum>n<(2::nat). (word_of_int (sint (2::16 word) * sint (3::16 word)) :: 32 word))"
    by (elim exE conjE) blast
  have s: "(\<Sum>n<(2::nat). (word_of_int (sint (2::16 word) * sint (3::16 word)) :: 32 word)) = 12"
    by simp
  from v [of 1 0] v [of 1 1] have "d (1 * 2 + 0) = 12" "d (1 * 2 + 1) = 12" by (simp_all add: s)
  with d h show ?thesis by blast
qed

end
